theory Spec2Isabelle
  imports Main
begin

section \<open>Values, objects and the heap\<close>

text \<open>
  The source is a JavaScript script (no strict-mode directive, no module syntax) that
  builds objects, links them by their prototype reference and calls methods through that
  link. The embedding keeps the object heap explicit: an object is a property table and
  one optional prototype reference; an address is an index into the list of objects.
  Objects are never freed.

  Functions of the source are represented by a tag naming their code, with the captured
  object where the function closes over one.
\<close>

type_synonym addr = nat

datatype fn =
    Fn_increment_closure addr
  | Fn_increment_this
  | Fn_login string
  | Fn_sayName
  | Fn_increaseBalance
  | Fn_increment_add1_plain
  | Fn_increment_add1_arrow
  | Fn_num_increment
  | Fn_userCreator
  | Fn_UserCreator_class
  | Fn_paidUserCreator
  | Fn_hasOwnProperty

datatype val =
    VUndef
  | VBool bool
  | VNum int
  | VNaN
  | VStr string
  | VFun fn
  | VObj addr

record obj =
  props :: "string \<rightharpoonup> val"
  proto :: "addr option"

record state =
  heap :: "obj list"
  console :: "string list"

datatype error =
    TypeError string
  | ReferenceError string
  | OutsideFragment string

datatype completion =
    Normal val state
  | Throw error state

definition globalThis :: addr where
  "globalThis = 0"

definition Object_prototype :: addr where
  "Object_prototype = 1"

definition initial_state :: state where
  "initial_state =
     \<lparr>heap = [\<lparr>props = Map.empty, proto = Some Object_prototype\<rparr>,
              \<lparr>props = [''hasOwnProperty'' \<mapsto> VFun Fn_hasOwnProperty], proto = None\<rparr>],
      console = []\<rparr>"

subsection \<open>Numbers\<close>

text \<open>
  A JavaScript number is an IEEE 754 double. \<open>VNum v\<close> stands for the double whose value
  is the integer \<open>v\<close>; fractional numbers and the infinities are outside the fragment.
  Every integer of magnitude up to \<open>2^53\<close> is a double; beyond that a double is a multiple
  of a power of two with a 53-bit quotient, and the sum of two doubles is the double
  nearest to the exact sum, a tie going to the even quotient.
\<close>

function bit_length :: "int \<Rightarrow> nat" where
  "bit_length n = (if n \<le> 0 then 0 else Suc (bit_length (n div 2)))"
  by pat_completeness auto
termination
  by (relation "measure nat") auto

declare bit_length.simps [simp del]

definition round_double :: "int \<Rightarrow> int" where
  "round_double x =
     (if \<bar>x\<bar> \<le> 2 ^ 53 then x
      else
        let m = \<bar>x\<bar>;
            u = 2 ^ (bit_length m - 53);
            q = m div u;
            r = m mod u;
            q' = (if 2 * r < u \<or> (2 * r = u \<and> even q) then q else q + 1)
        in sgn x * (q' * u))"

text \<open>\<open>ToNumber\<close>. A string operand needs the numeric-literal parser and an object operand
  needs its \<open>valueOf\<close>/\<open>toString\<close>; both are left outside the fragment and reported as
  such. A function converts through its source text, which is never a numeric literal.\<close>

fun to_number :: "val \<Rightarrow> error + val" where
  "to_number VUndef = Inr VNaN"
| "to_number (VBool b) = Inr (VNum (if b then 1 else 0))"
| "to_number (VNum v) = Inr (VNum v)"
| "to_number VNaN = Inr VNaN"
| "to_number (VStr s) = Inl (OutsideFragment ''ToNumber of a string'')"
| "to_number (VFun f) = Inr VNaN"
| "to_number (VObj a) = Inl (OutsideFragment ''ToNumber of an object'')"

text \<open>The numeric step of \<open>x++\<close>: the operand, already a number, plus one.\<close>

fun add_one :: "val \<Rightarrow> val" where
  "add_one (VNum v) = VNum (round_double (v + 1))"
| "add_one w = VNaN"

text \<open>\<open>ToString\<close>, for the right operand of \<open>'I am ' + this.name\<close>.\<close>

fun to_string :: "val \<Rightarrow> error + string" where
  "to_string VUndef = Inr ''undefined''"
| "to_string (VBool b) = Inr (if b then ''true'' else ''false'')"
| "to_string (VNum v) = Inl (OutsideFragment ''ToString of a number'')"
| "to_string VNaN = Inr ''NaN''"
| "to_string (VStr s) = Inr s"
| "to_string (VFun f) = Inl (OutsideFragment ''ToString of a function'')"
| "to_string (VObj a) = Inl (OutsideFragment ''ToString of an object'')"

subsection \<open>Property lookup along the prototype chain\<close>

text \<open>
  Reading \<open>o.n\<close>: the object's own table first, then its prototype's, and so on; the
  value is \<open>undefined\<close> when the chain ends without the name. The walk is a loop over
  heap references, so the function is partial: \<open>None\<close> is the walk that yields no value
  (it never ends, or it leaves the heap).
\<close>

partial_function (option) get_prop :: "obj list \<Rightarrow> addr \<Rightarrow> string \<Rightarrow> val option" where
  "get_prop h a n =
     (if a < length h then
        (case props (h ! a) n of
           Some v \<Rightarrow> Some v
         | None \<Rightarrow> (case proto (h ! a) of
                      None \<Rightarrow> Some VUndef
                    | Some p \<Rightarrow> get_prop h p n))
      else None)"

text \<open>Writing \<open>o.n = v\<close>: every property of the fragment is a writable data property, so
  the write lands in the receiver's own table. An address outside the heap stands for no
  object, and nothing is written.\<close>

definition set_own :: "addr \<Rightarrow> string \<Rightarrow> val \<Rightarrow> state \<Rightarrow> state" where
  "set_own a n v s =
     s\<lparr>heap := (heap s)[a := (heap s ! a)\<lparr>props := (props (heap s ! a))(n \<mapsto> v)\<rparr>]\<rparr>"

definition alloc :: "obj \<Rightarrow> state \<Rightarrow> addr \<times> state" where
  "alloc ob s = (length (heap s), s\<lparr>heap := heap s @ [ob]\<rparr>)"

definition console_log :: "string \<Rightarrow> state \<Rightarrow> state" where
  "console_log msg s = s\<lparr>console := console s @ [msg]\<rparr>"

text \<open>\<open>o.n++\<close> as a statement: read through the chain, convert, add one, write to \<open>o\<close>.\<close>

definition postfix_inc :: "addr \<Rightarrow> string \<Rightarrow> state \<Rightarrow> completion option" where
  "postfix_inc a n s =
     (case get_prop (heap s) a n of
        None \<Rightarrow> None
      | Some old \<Rightarrow>
          (case to_number old of
             Inl e \<Rightarrow> Some (Throw e s)
           | Inr oldNum \<Rightarrow> Some (Normal VUndef (set_own a n (add_one oldNum) s))))"

subsection \<open>The functions of the source\<close>

text \<open>
  Each tag of \<open>fn\<close> stands for the code of these functions of
  \<^verbatim>\<open>01-oop-review.js\<close>:
  \<^item> \<open>Fn_increment_closure a\<close>: \<^verbatim>\<open>function () { user1.score++; }\<close> and
    \<^verbatim>\<open>function () { newUser.score++; }\<close> (lines 24-26, 57-59, 66-68, 82-84), closed over
    the constant binding of the object at \<open>a\<close>;
  \<^item> \<open>Fn_increment_this\<close>: \<^verbatim>\<open>function () { this.score++; }\<close> (lines 118-120, 162-164,
    206-208, 235-237, 319-321, 387-389, 447-449);
  \<^item> \<open>Fn_login msg\<close>: \<^verbatim>\<open>function () { console.log(msg); }\<close> (lines 121-123, 165-167,
    239-241, 274-276, 296-298, 322-324);
  \<^item> \<open>Fn_sayName\<close>: \<^verbatim>\<open>function () { console.log('I am ' + this.name); }\<close> (lines 384-386,
    443-445);
  \<^item> \<open>Fn_increaseBalance\<close>: \<^verbatim>\<open>function () { this.accountBalance++; }\<close> (lines 403-405,
    463-465);
  \<^item> \<open>Fn_increment_add1_plain\<close>: lines 267-272, the inner \<^verbatim>\<open>function add1\<close> called as
    \<^verbatim>\<open>add1()\<close>;
  \<^item> \<open>Fn_increment_add1_arrow\<close>: lines 289-294, the inner arrow function;
  \<^item> \<open>Fn_num_increment\<close>: \<^verbatim>\<open>function () { this.num++; }\<close> (lines 419-421);
  \<^item> \<open>Fn_userCreator\<close>: the constructor function of lines 200-203 (again at 230-233,
    262-265, 284-287, 439-442);
  \<^item> \<open>Fn_UserCreator_class\<close>: the class constructor of lines 314-318;
  \<^item> \<open>Fn_paidUserCreator\<close>: the constructor function of lines 455-459;
  \<^item> \<open>Fn_hasOwnProperty\<close>: the built-in that line 351 lists in \<^verbatim>\<open>Object.prototype\<close>.
\<close>

definition arg :: "val list \<Rightarrow> nat \<Rightarrow> val" where
  "arg args i = (if i < length args then args ! i else VUndef)"

text \<open>\<^verbatim>\<open>this.name = name; this.score = score;\<close>\<close>

definition userCreator_body :: "addr \<Rightarrow> val \<Rightarrow> val \<Rightarrow> state \<Rightarrow> state" where
  "userCreator_body this name score s =
     set_own this ''score'' score (set_own this ''name'' name s)"

text \<open>\<^verbatim>\<open>userCreator.call(this, paidName, paidScore); this.accountBalance = accountBalance;\<close>\<close>

definition paidUserCreator_body :: "addr \<Rightarrow> val \<Rightarrow> val \<Rightarrow> val \<Rightarrow> state \<Rightarrow> state" where
  "paidUserCreator_body this paidName paidScore accountBalance s =
     set_own this ''accountBalance'' accountBalance
       (userCreator_body this paidName paidScore s)"

text \<open>The inner function of \<open>increment\<close> (lines 268-270 and 290-292): \<^verbatim>\<open>this.score++\<close>,
  for whatever \<open>this\<close> the inner function sees.\<close>

definition add1 :: "addr \<Rightarrow> state \<Rightarrow> completion option" where
  "add1 this s = postfix_inc this ''score'' s"

text \<open>Lines 267-272: \<open>add1\<close> is a plain function called without a receiver; in a script
  that is not strict its \<open>this\<close> is the global object.\<close>

definition increment_add1_plain :: "addr \<Rightarrow> state \<Rightarrow> completion option" where
  "increment_add1_plain this s = add1 globalThis s"

text \<open>Lines 289-294: \<open>add1\<close> is an arrow function; its \<open>this\<close> is the one of the enclosing
  call of \<open>increment\<close>.\<close>

definition increment_add1_arrow :: "addr \<Rightarrow> state \<Rightarrow> completion option" where
  "increment_add1_arrow this s = add1 this s"

definition sayName :: "addr \<Rightarrow> state \<Rightarrow> completion option" where
  "sayName this s =
     (case get_prop (heap s) this ''name'' of
        None \<Rightarrow> None
      | Some v \<Rightarrow>
          (case to_string v of
             Inl e \<Rightarrow> Some (Throw e s)
           | Inr str \<Rightarrow> Some (Normal VUndef (console_log (''I am '' @ str) s))))"

definition hasOwnProperty :: "addr \<Rightarrow> val \<Rightarrow> state \<Rightarrow> completion option" where
  "hasOwnProperty this key s =
     (case to_string key of
        Inl e \<Rightarrow> Some (Throw e s)
      | Inr k \<Rightarrow>
          if this < length (heap s)
          then Some (Normal (VBool (props (heap s ! this) k \<noteq> None)) s)
          else None)"

text \<open>Calling a function value with a given \<open>this\<close> and arguments.\<close>

fun call_fn :: "fn \<Rightarrow> addr \<Rightarrow> val list \<Rightarrow> state \<Rightarrow> completion option" where
  "call_fn (Fn_increment_closure a) this args s = postfix_inc a ''score'' s"
| "call_fn Fn_increment_this this args s = postfix_inc this ''score'' s"
| "call_fn (Fn_login msg) this args s = Some (Normal VUndef (console_log msg s))"
| "call_fn Fn_sayName this args s = sayName this s"
| "call_fn Fn_increaseBalance this args s = postfix_inc this ''accountBalance'' s"
| "call_fn Fn_increment_add1_plain this args s = increment_add1_plain this s"
| "call_fn Fn_increment_add1_arrow this args s = increment_add1_arrow this s"
| "call_fn Fn_num_increment this args s = postfix_inc this ''num'' s"
| "call_fn Fn_userCreator this args s =
     Some (Normal VUndef (userCreator_body this (arg args 0) (arg args 1) s))"
| "call_fn Fn_UserCreator_class this args s =
     Some (Throw (TypeError ''Class constructor UserCreator cannot be invoked without new'') s)"
| "call_fn Fn_paidUserCreator this args s =
     Some (Normal VUndef
       (paidUserCreator_body this (arg args 0) (arg args 1) (arg args 2) s))"
| "call_fn Fn_hasOwnProperty this args s = hasOwnProperty this (arg args 0) s"

text \<open>The method call \<^verbatim>\<open>e.n(args)\<close>: the property is read through the chain of \<open>e\<close> and
  the function found is called with \<open>e\<close> as \<open>this\<close>.\<close>

definition invoke :: "addr \<Rightarrow> string \<Rightarrow> val list \<Rightarrow> state \<Rightarrow> completion option" where
  "invoke e n args s =
     (case get_prop (heap s) e n of
        None \<Rightarrow> None
      | Some (VFun f) \<Rightarrow> call_fn f e args s
      | Some _ \<Rightarrow> Some (Throw (TypeError (n @ '' is not a function'')) s))"

text \<open>\<^verbatim>\<open>b.n.call(r, args)\<close>, as in \<^verbatim>\<open>obj.increment.call(otherObj)\<close> (line 427): the function
  is read from \<open>b\<close> and called with \<open>r\<close> as \<open>this\<close>.\<close>

definition invokeWith :: "addr \<Rightarrow> string \<Rightarrow> addr \<Rightarrow> val list \<Rightarrow> state \<Rightarrow> completion option" where
  "invokeWith b n r args s =
     (case get_prop (heap s) b n of
        None \<Rightarrow> None
      | Some (VFun f) \<Rightarrow> call_fn f r args s
      | Some _ \<Rightarrow> Some (Throw (TypeError (n @ ''.call is not a function'')) s))"

text \<open>The same method call made \<open>k\<close> times in a row, stopping at the first throw.\<close>

fun invoke_n :: "nat \<Rightarrow> addr \<Rightarrow> string \<Rightarrow> state \<Rightarrow> completion option" where
  "invoke_n 0 e n s = Some (Normal VUndef s)"
| "invoke_n (Suc k) e n s =
     (case invoke e n [] s of
        Some (Normal v s') \<Rightarrow> invoke_n k e n s'
      | r \<Rightarrow> r)"

subsection \<open>Creating and linking objects\<close>

text \<open>An object literal: a fresh object with the listed properties (a later duplicate
  wins) whose prototype is \<^verbatim>\<open>Object.prototype\<close>.\<close>

definition object_literal :: "(string \<times> val) list \<Rightarrow> state \<Rightarrow> addr \<times> state" where
  "object_literal kvs s = alloc \<lparr>props = map_of (rev kvs), proto = Some Object_prototype\<rparr> s"

text \<open>\<^verbatim>\<open>Object.create(p)\<close>, \<open>p\<close> an object or \<^verbatim>\<open>null\<close>.\<close>

definition Object_create :: "addr option \<Rightarrow> state \<Rightarrow> addr \<times> state" where
  "Object_create p s = alloc \<lparr>props = Map.empty, proto = p\<rparr> s"

text \<open>The object a \<^verbatim>\<open>function\<close> declaration or a class gives its \<^verbatim>\<open>prototype\<close> property.\<close>

definition function_prototype :: "fn \<Rightarrow> state \<Rightarrow> addr \<times> state" where
  "function_prototype F s = object_literal [(''constructor'', VFun F)] s"

text \<open>
  \<^verbatim>\<open>Object.setPrototypeOf(ob, v)\<close>. The runtime walks the chain of \<open>v\<close> looking for \<open>ob\<close>
  and throws a TypeError when it finds it; nothing is checked when \<open>v\<close> already is the
  prototype of \<open>ob\<close>. An address outside the heap stands for no object, and the call
  yields nothing.
\<close>

partial_function (option) proto_chain_reaches :: "obj list \<Rightarrow> addr option \<Rightarrow> addr \<Rightarrow> bool option" where
  "proto_chain_reaches h p target =
     (case p of
        None \<Rightarrow> Some False
      | Some a \<Rightarrow>
          if a = target then Some True
          else if a < length h then proto_chain_reaches h (proto (h ! a)) target
          else None)"

definition Object_setPrototypeOf :: "addr \<Rightarrow> addr option \<Rightarrow> state \<Rightarrow> completion option" where
  "Object_setPrototypeOf ob v s =
     (if \<not> ob < length (heap s) then None
      else if proto (heap s ! ob) = v then Some (Normal (VObj ob) s)
      else
        (case proto_chain_reaches (heap s) v ob of
           None \<Rightarrow> None
         | Some True \<Rightarrow> Some (Throw (TypeError ''Cyclic __proto__ value'') s)
         | Some False \<Rightarrow>
             Some (Normal (VObj ob) (s\<lparr>heap := (heap s)[ob := (heap s ! ob)\<lparr>proto := v\<rparr>]\<rparr>))))"

subsection \<open>The objects and factories of the source\<close>

text \<open>Lines 21-27, 54-59 and 63-68: three users built by hand. Each \<open>increment\<close> names
  the constant the object is bound to.\<close>

definition user1_literal :: "state \<Rightarrow> addr \<times> state" where
  "user1_literal s =
     object_literal
       [(''name'', VStr ''Phil''), (''score'', VNum 4),
        (''increment'', VFun (Fn_increment_closure (length (heap s))))] s"

definition user2_dot_notation :: "state \<Rightarrow> addr \<times> state" where
  "user2_dot_notation s =
     (case object_literal [] s of
        (user2, s1) \<Rightarrow>
          (user2,
           set_own user2 ''increment'' (VFun (Fn_increment_closure user2))
             (set_own user2 ''score'' (VNum 5)
               (set_own user2 ''name'' (VStr ''Julia'') s1))))"

definition user3_Object_create :: "state \<Rightarrow> addr \<times> state" where
  "user3_Object_create s =
     (case Object_create None s of
        (user3, s1) \<Rightarrow>
          (user3,
           set_own user3 ''increment'' (VFun (Fn_increment_closure user3))
             (set_own user3 ''score'' (VNum 9)
               (set_own user3 ''name'' (VStr ''Eva'') s1))))"

text \<open>Solution 1, lines 78-86: every user gets its own \<open>increment\<close>, closed over
  \<open>newUser\<close>.\<close>

definition userCreator_sol1 :: "val \<Rightarrow> val \<Rightarrow> state \<Rightarrow> addr \<times> state" where
  "userCreator_sol1 name score s =
     (case object_literal [] s of
        (newUser, s1) \<Rightarrow>
          (newUser,
           set_own newUser ''increment'' (VFun (Fn_increment_closure newUser))
             (set_own newUser ''score'' score
               (set_own newUser ''name'' name s1))))"

text \<open>Solution 2. The shared stores of lines 117-124, 161-168 and 383-390, and the
  factory of lines 154-159 and 377-382, whose free variable (\<open>userFunctionStore\<close>,
  \<open>userFunctions\<close>) is the first parameter here.\<close>

definition functionScore_literal :: "state \<Rightarrow> addr \<times> state" where
  "functionScore_literal s =
     object_literal
       [(''increment'', VFun Fn_increment_this),
        (''login'', VFun (Fn_login ''You are logged in''))] s"

definition userFunctionStore_literal :: "state \<Rightarrow> addr \<times> state" where
  "userFunctionStore_literal s =
     object_literal
       [(''increment'', VFun Fn_increment_this),
        (''login'', VFun (Fn_login ''You are logged!''))] s"

definition userFunctions_literal :: "state \<Rightarrow> addr \<times> state" where
  "userFunctions_literal s =
     object_literal
       [(''sayName'', VFun Fn_sayName), (''increment'', VFun Fn_increment_this)] s"

definition userCreator_sol2 :: "addr \<Rightarrow> val \<Rightarrow> val \<Rightarrow> state \<Rightarrow> addr \<times> state" where
  "userCreator_sol2 userFunctions name score s =
     (case Object_create (Some userFunctions) s of
        (newUser, s1) \<Rightarrow>
          (newUser, set_own newUser ''score'' score (set_own newUser ''name'' name s1)))"

text \<open>Subclassing in solution 2. Lines 402-406 build \<open>paidUserFunctions\<close> and line 408
  links it to \<open>userFunctions\<close>.\<close>

definition paidUserFunctions_literal :: "state \<Rightarrow> addr \<times> state" where
  "paidUserFunctions_literal s =
     object_literal [(''increaseBalance'', VFun Fn_increaseBalance)] s"

text \<open>
  Lines 395-400. The identifiers of the body that stand for objects are looked up in the
  scope of the call: the local constant \<open>newPaidUser\<close> and the two script-level stores.
  Line 397 names \<open>newUserpaid\<close>, which no declaration of the script binds.
\<close>

definition paidUserCreator_scope :: "addr \<Rightarrow> addr \<Rightarrow> addr \<Rightarrow> (string \<rightharpoonup> addr)" where
  "paidUserCreator_scope newPaidUser userFunctions paidUserFunctions =
     [''newPaidUser'' \<mapsto> newPaidUser,
      ''userFunctions'' \<mapsto> userFunctions,
      ''paidUserFunctions'' \<mapsto> paidUserFunctions]"

definition paidUserCreator_sol2 ::
  "addr \<Rightarrow> addr \<Rightarrow> val \<Rightarrow> val \<Rightarrow> val \<Rightarrow> state \<Rightarrow> completion option" where
  "paidUserCreator_sol2 userFunctions paidUserFunctions paidName paidScore accountBalance s =
     (case userCreator_sol2 userFunctions paidName paidScore s of
        (newPaidUser, s1) \<Rightarrow>
          (case paidUserCreator_scope newPaidUser userFunctions paidUserFunctions ''newUserpaid'' of
             None \<Rightarrow> Some (Throw (ReferenceError ''newUserpaid is not defined'') s1)
           | Some target \<Rightarrow>
               (case Object_setPrototypeOf target (Some paidUserFunctions) s1 of
                  None \<Rightarrow> None
                | Some (Throw e s2) \<Rightarrow> Some (Throw e s2)
                | Some (Normal v s2) \<Rightarrow>
                    Some (Normal (VObj newPaidUser)
                      (set_own newPaidUser ''accountBalance'' accountBalance s2)))))"

text \<open>Solution 3: \<^verbatim>\<open>new userCreator(name, score)\<close> makes an object whose prototype is
  \<^verbatim>\<open>userCreator.prototype\<close> (the first parameter) and runs the body on it. The class of
  lines 314-325 is constructed the same way.\<close>

definition new_userCreator :: "addr \<Rightarrow> val \<Rightarrow> val \<Rightarrow> state \<Rightarrow> addr \<times> state" where
  "new_userCreator prototype name score s =
     (case Object_create (Some prototype) s of
        (this, s1) \<Rightarrow> (this, userCreator_body this name score s1))"

definition new_paidUserCreator :: "addr \<Rightarrow> val \<Rightarrow> val \<Rightarrow> val \<Rightarrow> state \<Rightarrow> addr \<times> state" where
  "new_paidUserCreator prototype paidName paidScore accountBalance s =
     (case Object_create (Some prototype) s of
        (this, s1) \<Rightarrow>
          (this, paidUserCreator_body this paidName paidScore accountBalance s1))"

text \<open>Lines 230-241: \<^verbatim>\<open>userCreator.prototype\<close> with \<open>increment\<close> and \<open>login\<close>.\<close>

definition userCreator_prototype_sol3 :: "state \<Rightarrow> addr \<times> state" where
  "userCreator_prototype_sol3 s =
     (case function_prototype Fn_userCreator s of
        (p, s1) \<Rightarrow>
          (p, set_own p ''login'' (VFun (Fn_login ''Logged in''))
                (set_own p ''increment'' (VFun Fn_increment_this) s1)))"

text \<open>Lines 284-298: \<^verbatim>\<open>UserCreator.prototype\<close>, the prototype of the function declared at
  line 284, with the \<open>increment\<close> that works through the arrow function \<open>add1\<close>.\<close>

definition UserCreator_prototype_arrow :: "state \<Rightarrow> addr \<times> state" where
  "UserCreator_prototype_arrow s =
     (case function_prototype Fn_userCreator s of
        (p, s1) \<Rightarrow>
          (p, set_own p ''login'' (VFun (Fn_login ''Login''))
                (set_own p ''increment'' (VFun Fn_increment_add1_arrow) s1)))"

text \<open>
  Lines 262-280. Line 262 declares the function \<open>userCreator\<close>, and with it the object
  \<^verbatim>\<open>userCreator.prototype\<close>. Lines 267 and 274 assign \<open>increment\<close> (with the plain inner
  function \<open>add1\<close>) and \<open>login\<close> to \<^verbatim>\<open>UserCreator.prototype\<close>, under another name: the
  first parameter is the prototype object of the function that \<open>UserCreator\<close> is bound to,
  and \<open>None\<close> when nothing binds that identifier, as in these lines taken alone. Line 278
  builds \<open>user1\<close> with \<^verbatim>\<open>new userCreator('Eva', 9)\<close> and line 280 calls
  \<^verbatim>\<open>user1.increment()\<close>.
\<close>

definition lines_262_280 :: "addr option \<Rightarrow> state \<Rightarrow> completion option" where
  "lines_262_280 UserCreator_prototype s =
     (case function_prototype Fn_userCreator s of
        (userCreator_prototype, s1) \<Rightarrow>
          (case UserCreator_prototype of
             None \<Rightarrow> Some (Throw (ReferenceError ''UserCreator is not defined'') s1)
           | Some P \<Rightarrow>
               (case new_userCreator userCreator_prototype (VStr ''Eva'') (VNum 9)
                       (set_own P ''login'' (VFun (Fn_login ''Login''))
                         (set_own P ''increment'' (VFun Fn_increment_add1_plain) s1)) of
                  (user1, s2) \<Rightarrow> invoke user1 ''increment'' [] s2)))"

text \<open>Lines 314-325: the prototype of the class.\<close>

definition UserCreator_class_prototype :: "state \<Rightarrow> addr \<times> state" where
  "UserCreator_class_prototype s =
     object_literal
       [(''constructor'', VFun Fn_UserCreator_class),
        (''increment'', VFun Fn_increment_this),
        (''login'', VFun (Fn_login ''Login''))] s"

text \<open>Subclassing in solution 3. Lines 439-449: \<^verbatim>\<open>userCreator.prototype\<close> with \<open>sayName\<close>
  and \<open>increment\<close>. Lines 461-465: \<^verbatim>\<open>paidUserCreator.prototype\<close> is replaced by a fresh
  object whose prototype is \<^verbatim>\<open>userCreator.prototype\<close>, and gets \<open>increaseBalance\<close>.\<close>

definition userCreator_prototype_sub :: "state \<Rightarrow> addr \<times> state" where
  "userCreator_prototype_sub s =
     (case function_prototype Fn_userCreator s of
        (p, s1) \<Rightarrow>
          (p, set_own p ''increment'' (VFun Fn_increment_this)
                (set_own p ''sayName'' (VFun Fn_sayName) s1)))"

definition paidUserCreator_prototype_sub :: "addr \<Rightarrow> state \<Rightarrow> addr \<times> state" where
  "paidUserCreator_prototype_sub userCreator_prototype s =
     (case Object_create (Some userCreator_prototype) s of
        (p, s1) \<Rightarrow> (p, set_own p ''increaseBalance'' (VFun Fn_increaseBalance) s1))"

text \<open>Lines 417-425: \<open>obj\<close> and \<open>otherObj\<close>.\<close>

definition obj_literal :: "state \<Rightarrow> addr \<times> state" where
  "obj_literal s =
     object_literal [(''num'', VNum 3), (''increment'', VFun Fn_num_increment)] s"

definition otherObj_literal :: "state \<Rightarrow> addr \<times> state" where
  "otherObj_literal s = object_literal [(''num'', VNum 10)] s"

section \<open>Reading the heap\<close>

definition own :: "state \<Rightarrow> addr \<Rightarrow> string \<Rightarrow> val option" where
  "own s a n = props (heap s ! a) n"

definition proto_of :: "state \<Rightarrow> addr \<Rightarrow> addr option" where
  "proto_of s a = proto (heap s ! a)"

text \<open>The object \<open>k\<close> links up the chain of \<open>a\<close>: \<open>a\<close> itself, its prototype, and so on.\<close>

fun nth_proto :: "obj list \<Rightarrow> nat \<Rightarrow> addr \<Rightarrow> addr option" where
  "nth_proto h 0 a = (if a < length h then Some a else None)"
| "nth_proto h (Suc k) a =
     (if a < length h
      then (case proto (h ! a) of None \<Rightarrow> None | Some p \<Rightarrow> nth_proto h k p)
      else None)"

text \<open>A heap is well formed when every prototype reference stays inside it and the
  references admit a ranking that decreases along them, so no chain comes back to an
  object it has left.\<close>

definition wf_heap :: "obj list \<Rightarrow> bool" where
  "wf_heap h \<longleftrightarrow>
     (\<exists>rank :: addr \<Rightarrow> nat.
        \<forall>a < length h. \<forall>p. proto (h ! a) = Some p \<longrightarrow> p < length h \<and> rank p < rank a)"

section \<open>Kinds of entity\<close>

text \<open>A user in the style of solution 1: its own \<open>increment\<close> is the function closed over
  the user itself.\<close>

definition closure_user :: "state \<Rightarrow> addr \<Rightarrow> bool" where
  "closure_user s e \<longleftrightarrow>
     e < length (heap s) \<and> own s e ''increment'' = Some (VFun (Fn_increment_closure e))"

text \<open>Line 88: \<^verbatim>\<open>const user1 = userCreator('Phil', 4)\<close>, run on the initial heap.\<close>

definition sol1_state :: state where
  "sol1_state = snd (userCreator_sol1 (VStr ''Phil'') (VNum 4) initial_state)"

text \<open>An entity that does not own \<open>n\<close> and whose prototype owns the function \<open>f\<close> under
  that name: the shape the factories of solutions 2 to 4 give their users.\<close>

definition delegates :: "state \<Rightarrow> addr \<Rightarrow> string \<Rightarrow> fn \<Rightarrow> bool" where
  "delegates s e n f \<longleftrightarrow>
     e < length (heap s) \<and> own s e n = None \<and>
     (case proto_of s e of
        None \<Rightarrow> False
      | Some P \<Rightarrow> P < length (heap s) \<and> own s P n = Some (VFun f))"

text \<open>Lines 284-300 run on the initial heap: \<^verbatim>\<open>UserCreator.prototype\<close> at address 2 and
  the user of \<^verbatim>\<open>new UserCreator('Eva', 9)\<close> at 3.\<close>

definition arrow_state :: state where
  "arrow_state =
     snd (new_userCreator 2 (VStr ''Eva'') (VNum 9)
            (snd (UserCreator_prototype_arrow initial_state)))"

text \<open>Lines 262-280 read in one script with the declaration of line 284, which then binds
  \<open>UserCreator\<close> from the start: the initial heap with \<^verbatim>\<open>UserCreator.prototype\<close> at address
  2, and the state when line 280 is reached, with \<^verbatim>\<open>userCreator.prototype\<close> at 3 and
  \<open>user1\<close> at 4.\<close>

definition UserCreator_declared_state :: state where
  "UserCreator_declared_state = snd (function_prototype Fn_userCreator initial_state)"

definition plain_add1_state :: state where
  "plain_add1_state =
     snd (new_userCreator 3 (VStr ''Eva'') (VNum 9)
            (set_own 2 ''login'' (VFun (Fn_login ''Login''))
              (set_own 2 ''increment'' (VFun Fn_increment_add1_plain)
                (snd (function_prototype Fn_userCreator UserCreator_declared_state)))))"

text \<open>Lines 88 and 89 run on the initial heap: the two users of solution 1, \<open>user1\<close> at
  address 2 and \<open>user2\<close> at 3.\<close>

definition sol1_users_state :: state where
  "sol1_users_state = snd (userCreator_sol1 (VStr ''Julia'') (VNum 5) sol1_state)"

text \<open>The state a completion leaves behind.\<close>

fun state_of :: "completion \<Rightarrow> state" where
  "state_of (Normal v s) = s"
| "state_of (Throw e s) = s"

text \<open>The property names the functions of the source assign to.\<close>

definition data_fields :: "string list" where
  "data_fields = [''name'', ''score'', ''accountBalance'', ''num'']"

text \<open>Subclassing in solution 3, run on the initial heap. Lines 439-449 and 461-465 build
  the two prototypes (at addresses 2 and 3); lines 451, 452 and 467 make \<open>user1\<close>,
  \<open>user2\<close> and \<open>paidUser1\<close> (at 4, 5 and 6).\<close>

definition sub_prototypes_state :: state where
  "sub_prototypes_state =
     snd (paidUserCreator_prototype_sub 2 (snd (userCreator_prototype_sub initial_state)))"

definition phil_state :: state where
  "phil_state = snd (new_userCreator 2 (VStr ''Phil'') (VNum 5) sub_prototypes_state)"

definition tim_state :: state where
  "tim_state = snd (new_userCreator 2 (VStr ''Tim'') (VNum 4) phil_state)"

definition sub_state :: state where
  "sub_state =
     snd (new_paidUserCreator 3 (VStr ''Alyssa'') (VNum 8) (VNum 25) tim_state)"

text \<open>The same prototypes with a user whose score is \<open>2^53\<close>.\<close>

definition big_score_state :: state where
  "big_score_state =
     snd (new_userCreator 2 (VStr ''Phil'') (VNum 9007199254740992) sub_prototypes_state)"

text \<open>The same prototypes with a paid user whose balance is \<open>2^53\<close>.\<close>

definition big_balance_state :: state where
  "big_balance_state =
     snd (new_paidUserCreator 3 (VStr ''Alyssa'') (VNum 8) (VNum 9007199254740992)
            sub_prototypes_state)"

text \<open>Subclassing in solution 2, run on the initial heap: \<open>userFunctions\<close> (at
  address 2), \<open>user1\<close> (at 3) and \<open>paidUserFunctions\<close> (at 4) up to line 406, then the
  link of line 408.\<close>

definition sol2_literals_state :: state where
  "sol2_literals_state =
     snd (paidUserFunctions_literal
       (snd (userCreator_sol2 2 (VStr ''Phil'') (VNum 5)
         (snd (userFunctions_literal initial_state)))))"

definition sol2_sub_state :: state where
  "sol2_sub_state =
     (case Object_setPrototypeOf 4 (Some 2) sol2_literals_state of
        Some (Normal v s4) \<Rightarrow> s4
      | _ \<Rightarrow> sol2_literals_state)"

text \<open>Lines 417-425 run on the initial heap: \<open>obj\<close> at address 2, \<open>otherObj\<close> at 3.\<close>

definition obj_state :: state where
  "obj_state = snd (otherObj_literal (snd (obj_literal initial_state)))"

text \<open>A user of solution 1 made next to the prototypes of solution 3: its prototype is
  \<^verbatim>\<open>Object.prototype\<close>, not \<^verbatim>\<open>userCreator.prototype\<close>.\<close>

definition borrow_state :: state where
  "borrow_state = snd (userCreator_sol1 (VStr ''Phil'') (VNum 4) sub_prototypes_state)"

text \<open>The field of its receiver that a function of the source applies \<open>++\<close> to, for the
  functions that do so through \<open>this\<close>.\<close>

fun receiver_field :: "fn \<Rightarrow> string option" where
  "receiver_field Fn_increment_this = Some ''score''"
| "receiver_field Fn_increaseBalance = Some ''accountBalance''"
| "receiver_field Fn_increment_add1_arrow = Some ''score''"
| "receiver_field Fn_num_increment = Some ''num''"
| "receiver_field f = None"

section \<open>Resolution as the specification words it\<close>

text \<open>The resolution order of the specification: the levels of the chain of an entity
  (the entity, its behaviour set, the parent of that set, and so on), listed up to a
  given number of levels, and the first level in that order that holds the name.\<close>

fun chain_list :: "obj list \<Rightarrow> nat \<Rightarrow> addr \<Rightarrow> addr list" where
  "chain_list h 0 a = []"
| "chain_list h (Suc k) a =
     (if a < length h
      then a # (case proto (h ! a) of None \<Rightarrow> [] | Some p \<Rightarrow> chain_list h k p)
      else [])"

fun first_defining :: "obj list \<Rightarrow> addr list \<Rightarrow> string \<Rightarrow> val option" where
  "first_defining h [] n = None"
| "first_defining h (a # as) n =
     (case props (h ! a) n of Some v \<Rightarrow> Some v | None \<Rightarrow> first_defining h as n)"

definition resolve_spec :: "obj list \<Rightarrow> nat \<Rightarrow> addr \<Rightarrow> string \<Rightarrow> val" where
  "resolve_spec h k e n =
     (case first_defining h (chain_list h k e) n of None \<Rightarrow> VUndef | Some v \<Rightarrow> v)"


section \<open>Basic facts\<close>

lemma length_heap_set_own [simp]: "length (heap (set_own a n v s)) = length (heap s)"
  by (simp add: set_own_def)

lemma console_set_own [simp]: "console (set_own a n v s) = console s"
  by (simp add: set_own_def)

lemma own_set_own [simp]:
  "own (set_own a n v s) b m =
     (if b = a \<and> m = n \<and> a < length (heap s) then Some v else own s b m)"
  by (cases "a < length (heap s)")
     (auto simp: own_def set_own_def nth_list_update list_update_beyond)

lemma proto_of_set_own [simp]: "proto_of (set_own a n v s) b = proto_of s b"
  by (cases "a < length (heap s)")
     (auto simp: proto_of_def set_own_def nth_list_update list_update_beyond)

lemma set_own_other: "b \<noteq> a \<Longrightarrow> heap (set_own a n v s) ! b = heap s ! b"
  by (simp add: set_own_def)

lemma get_prop_own: "a < length h \<Longrightarrow> props (h ! a) n = Some v \<Longrightarrow> get_prop h a n = Some v"
  by (subst get_prop.simps) simp

lemma get_prop_proto:
  "a < length h \<Longrightarrow> props (h ! a) n = None \<Longrightarrow> proto (h ! a) = Some p \<Longrightarrow>
   get_prop h a n = get_prop h p n"
  by (subst get_prop.simps) simp

lemma get_prop_end:
  "a < length h \<Longrightarrow> props (h ! a) n = None \<Longrightarrow> proto (h ! a) = None \<Longrightarrow>
   get_prop h a n = Some VUndef"
  by (subst get_prop.simps) simp

lemma round_double_safe: "\<bar>x\<bar> \<le> 2 ^ 53 \<Longrightarrow> round_double x = x"
  by (simp add: round_double_def)

lemma postfix_inc_own_num:
  assumes "a < length (heap s)" and "own s a n = Some (VNum v)"
  shows "postfix_inc a n s = Some (Normal VUndef (set_own a n (VNum (round_double (v + 1))) s))"
proof -
  have "get_prop (heap s) a n = Some (VNum v)"
    using assms by (intro get_prop_own) (simp_all add: own_def)
  then show ?thesis by (simp add: postfix_inc_def)
qed

section \<open>Solution 1: functions closed over their object\<close>

lemma closure_user_fresh:
  assumes "length (heap s0) = Suc e"
  shows "closure_user (set_own e ''increment'' (VFun (Fn_increment_closure e))
           (set_own e ''score'' score (set_own e ''name'' name s0))) e"
    and "own (set_own e ''increment'' (VFun (Fn_increment_closure e))
           (set_own e ''score'' score (set_own e ''name'' name s0))) e ''score'' = Some score"
  using assms by (simp_all add: closure_user_def)

lemma userCreator_sol1_closure:
  assumes "userCreator_sol1 name score s = (e, s1)"
  shows "closure_user s1 e \<and> own s1 e ''score'' = Some score"
proof -
  obtain s0 where a: "object_literal [] s = (length (heap s), s0)"
    and l: "length (heap s0) = Suc (length (heap s))"
    by (simp add: object_literal_def alloc_def)
  from assms a have e: "e = length (heap s)"
    and s1: "s1 = set_own e ''increment'' (VFun (Fn_increment_closure e))
             (set_own e ''score'' score (set_own e ''name'' name s0))"
    by (auto simp: userCreator_sol1_def)
  show ?thesis using closure_user_fresh [of s0 e] l by (simp add: s1 e)
qed

lemma user1_literal_closure:
  assumes "user1_literal s = (e, s1)"
  shows "closure_user s1 e \<and> own s1 e ''score'' = Some (VNum 4)"
  using assms
  by (auto simp: user1_literal_def object_literal_def alloc_def closure_user_def own_def)

lemma user2_dot_notation_closure:
  assumes "user2_dot_notation s = (e, s1)"
  shows "closure_user s1 e \<and> own s1 e ''score'' = Some (VNum 5)"
proof -
  obtain s0 where a: "object_literal [] s = (length (heap s), s0)"
    and l: "length (heap s0) = Suc (length (heap s))"
    by (simp add: object_literal_def alloc_def)
  from assms a have e: "e = length (heap s)"
    and s1: "s1 = set_own e ''increment'' (VFun (Fn_increment_closure e))
             (set_own e ''score'' (VNum 5) (set_own e ''name'' (VStr ''Julia'') s0))"
    by (auto simp: user2_dot_notation_def)
  show ?thesis using closure_user_fresh [of s0 e] l by (simp add: s1 e)
qed

lemma user3_Object_create_closure:
  assumes "user3_Object_create s = (e, s1)"
  shows "closure_user s1 e \<and> own s1 e ''score'' = Some (VNum 9)"
proof -
  obtain s0 where a: "Object_create None s = (length (heap s), s0)"
    and l: "length (heap s0) = Suc (length (heap s))"
    by (simp add: Object_create_def alloc_def)
  from assms a have e: "e = length (heap s)"
    and s1: "s1 = set_own e ''increment'' (VFun (Fn_increment_closure e))
             (set_own e ''score'' (VNum 9) (set_own e ''name'' (VStr ''Eva'') s0))"
    by (auto simp: user3_Object_create_def)
  show ?thesis using closure_user_fresh [of s0 e] l by (simp add: s1 e)
qed

lemma closure_user_invoke:
  assumes "closure_user s e" and "own s e ''score'' = Some (VNum v)"
  shows "invoke e ''increment'' args s =
           Some (Normal VUndef (set_own e ''score'' (VNum (round_double (v + 1))) s))"
    and "invokeWith e ''increment'' r args s =
           Some (Normal VUndef (set_own e ''score'' (VNum (round_double (v + 1))) s))"
    and "closure_user (set_own e ''score'' (VNum (round_double (v + 1))) s) e"
proof -
  have lt: "e < length (heap s)" using assms(1) by (simp add: closure_user_def)
  have "get_prop (heap s) e ''increment'' = Some (VFun (Fn_increment_closure e))"
    using assms(1) by (intro get_prop_own) (simp_all add: closure_user_def own_def)
  then show "invoke e ''increment'' args s =
           Some (Normal VUndef (set_own e ''score'' (VNum (round_double (v + 1))) s))"
    and "invokeWith e ''increment'' r args s =
           Some (Normal VUndef (set_own e ''score'' (VNum (round_double (v + 1))) s))"
    using postfix_inc_own_num [OF lt assms(2)] by (simp_all add: invoke_def invokeWith_def)
  show "closure_user (set_own e ''score'' (VNum (round_double (v + 1))) s) e"
    using assms(1) by (simp add: closure_user_def)
qed

text \<open>
  Claim C10. A user made by the factory of solution 1, and each of the three users built
  by hand before it, owns an \<open>increment\<close> closed over the user itself. Calling that
  function, as a method of the user or through \<open>call\<close> with any other receiver \<open>r\<close>,
  applies \<open>++\<close> to the score of the user it is closed over and leaves the object of \<open>r\<close>
  as it was; the user still owns the same closure afterwards. For a score from \<open>-2^53\<close>
  up to \<open>2^53 - 1\<close> the new score is the old one plus one.
\<close>

theorem closure_increment_mutates_its_own_object:
  "(userCreator_sol1 name score s = (e, s1) \<longrightarrow>
      closure_user s1 e \<and> own s1 e ''score'' = Some score)
   \<and> (user1_literal s = (e, s1) \<longrightarrow> closure_user s1 e \<and> own s1 e ''score'' = Some (VNum 4))
   \<and> (user2_dot_notation s = (e, s1) \<longrightarrow>
        closure_user s1 e \<and> own s1 e ''score'' = Some (VNum 5))
   \<and> (user3_Object_create s = (e, s1) \<longrightarrow>
        closure_user s1 e \<and> own s1 e ''score'' = Some (VNum 9))
   \<and> (closure_user s2 u \<and> own s2 u ''score'' = Some (VNum v) \<longrightarrow>
        invoke u ''increment'' args s2 =
          Some (Normal VUndef (set_own u ''score'' (VNum (round_double (v + 1))) s2))
        \<and> invokeWith u ''increment'' r args s2 =
          Some (Normal VUndef (set_own u ''score'' (VNum (round_double (v + 1))) s2))
        \<and> closure_user (set_own u ''score'' (VNum (round_double (v + 1))) s2) u
        \<and> (r \<noteq> u \<longrightarrow>
             heap (set_own u ''score'' (VNum (round_double (v + 1))) s2) ! r = heap s2 ! r)
        \<and> (- (2 ^ 53) \<le> v \<and> v < 2 ^ 53 \<longrightarrow> round_double (v + 1) = v + 1))"
  using userCreator_sol1_closure [of name score s e s1]
    user1_literal_closure [of s e s1]
    user2_dot_notation_closure [of s e s1]
    user3_Object_create_closure [of s e s1]
    closure_user_invoke [of s2 u v]
    set_own_other [of r u]
    round_double_safe [of "v + 1"]
  by auto

lemma sol1_state_eq:
  "userCreator_sol1 (VStr ''Phil'') (VNum 4) initial_state = (2, sol1_state)"
  by (simp add: sol1_state_def userCreator_sol1_def object_literal_def alloc_def
      initial_state_def)

theorem closure_increment_mutates_its_own_object_witness:
  "userCreator_sol1 (VStr ''Phil'') (VNum 4) initial_state = (2, sol1_state)
   \<and> closure_user sol1_state 2
   \<and> own sol1_state 2 ''score'' = Some (VNum 4)
   \<and> invokeWith 2 ''increment'' 0 [] sol1_state =
       Some (Normal VUndef (set_own 2 ''score'' (VNum 5) sol1_state))
   \<and> heap (set_own 2 ''score'' (VNum 5) sol1_state) ! 0 = heap sol1_state ! 0"
  using closure_increment_mutates_its_own_object
    [of "VStr ''Phil''" "VNum 4" initial_state 2 sol1_state sol1_state 2 4 "[]" 0]
    sol1_state_eq
  by (simp add: round_double_safe)

section \<open>Delegation to a prototype\<close>

lemma delegates_get_prop:
  assumes "delegates s e n f"
  shows "get_prop (heap s) e n = Some (VFun f)"
proof -
  from assms obtain P where e: "e < length (heap s)" "props (heap s ! e) n = None"
    and P: "proto (heap s ! e) = Some P" "P < length (heap s)"
       "props (heap s ! P) n = Some (VFun f)"
    by (auto simp: delegates_def own_def proto_of_def split: option.splits)
  have "get_prop (heap s) e n = get_prop (heap s) P n"
    using e P(1) by (rule get_prop_proto)
  also have "\<dots> = Some (VFun f)" using P(2,3) by (rule get_prop_own)
  finally show ?thesis .
qed

lemma delegates_invoke:
  "delegates s e n f \<Longrightarrow> invoke e n args s = call_fn f e args s"
  by (simp add: invoke_def delegates_get_prop)

lemma postfix_inc_cases:
  assumes "postfix_inc a n s = Some c"
  shows "(\<exists>e. c = Throw e s) \<or> (\<exists>w. c = Normal VUndef (set_own a n w s))"
  using assms by (auto simp: postfix_inc_def split: option.splits sum.splits)

lemma arrow_state_eq:
  "arrow_state =
     \<lparr>heap = [\<lparr>props = Map.empty, proto = Some 1\<rparr>,
              \<lparr>props = [''hasOwnProperty'' \<mapsto> VFun Fn_hasOwnProperty], proto = None\<rparr>,
              \<lparr>props = [''constructor'' \<mapsto> VFun Fn_userCreator,
                        ''increment'' \<mapsto> VFun Fn_increment_add1_arrow,
                        ''login'' \<mapsto> VFun (Fn_login ''Login'')], proto = Some 1\<rparr>,
              \<lparr>props = [''name'' \<mapsto> VStr ''Eva'', ''score'' \<mapsto> VNum 9], proto = Some 2\<rparr>],
      console = []\<rparr>"
  by (simp add: arrow_state_def new_userCreator_def UserCreator_prototype_arrow_def
      function_prototype_def object_literal_def Object_create_def alloc_def initial_state_def
      userCreator_body_def set_own_def Object_prototype_def)

lemma plain_add1_state_eq:
  "plain_add1_state =
     \<lparr>heap = [\<lparr>props = Map.empty, proto = Some 1\<rparr>,
              \<lparr>props = [''hasOwnProperty'' \<mapsto> VFun Fn_hasOwnProperty], proto = None\<rparr>,
              \<lparr>props = [''constructor'' \<mapsto> VFun Fn_userCreator,
                        ''increment'' \<mapsto> VFun Fn_increment_add1_plain,
                        ''login'' \<mapsto> VFun (Fn_login ''Login'')], proto = Some 1\<rparr>,
              \<lparr>props = [''constructor'' \<mapsto> VFun Fn_userCreator], proto = Some 1\<rparr>,
              \<lparr>props = [''name'' \<mapsto> VStr ''Eva'', ''score'' \<mapsto> VNum 9], proto = Some 3\<rparr>],
      console = []\<rparr>"
  by (simp add: plain_add1_state_def UserCreator_declared_state_def new_userCreator_def
      function_prototype_def object_literal_def Object_create_def alloc_def initial_state_def
      userCreator_body_def set_own_def Object_prototype_def)

section \<open>Nested calls inside an operation\<close>

text \<open>The arrow function of lines 289-294: \<open>increment\<close>, found on the prototype and run
  with receiver \<open>e\<close>, runs \<open>add1\<close> with the same receiver, so a numeric score of \<open>e\<close> gets
  \<open>++\<close> applied; after lines 284-300 one call takes the score of the user from 9 to 10.\<close>

lemma arrow_inner_function_keeps_receiver:
  assumes "delegates s e ''increment'' Fn_increment_add1_arrow"
  shows "invoke e ''increment'' args s = add1 e s"
    and "own s e ''score'' = Some (VNum v) \<Longrightarrow>
         add1 e s = Some (Normal VUndef (set_own e ''score'' (VNum (round_double (v + 1))) s))"
proof -
  show "invoke e ''increment'' args s = add1 e s"
    using delegates_invoke [OF assms] by (simp add: increment_add1_arrow_def)
  assume "own s e ''score'' = Some (VNum v)"
  moreover from assms have "e < length (heap s)" by (simp add: delegates_def)
  ultimately show
    "add1 e s = Some (Normal VUndef (set_own e ''score'' (VNum (round_double (v + 1))) s))"
    by (simp add: add1_def postfix_inc_own_num)
qed

lemma arrow_state_increment:
  "invoke 3 ''increment'' [] arrow_state =
     Some (Normal VUndef (set_own 3 ''score'' (VNum 10) arrow_state))"
proof -
  have d: "delegates arrow_state 3 ''increment'' Fn_increment_add1_arrow"
    by (simp add: arrow_state_eq delegates_def own_def proto_of_def)
  have o: "own arrow_state 3 ''score'' = Some (VNum 9)"
    by (simp add: arrow_state_eq own_def)
  show ?thesis
    using arrow_inner_function_keeps_receiver(1) [OF d, of "[]"]
      arrow_inner_function_keeps_receiver(2) [OF d o]
    by (simp add: round_double_safe)
qed

text \<open>
  Claim C8. The nested call of lines 267-272 does not keep the receiver, and the call of
  line 280 does not increment the score. Taken alone, lines 262-280 stop at line 267 with
  a ReferenceError, since they declare \<open>userCreator\<close> and assign to
  \<^verbatim>\<open>UserCreator.prototype\<close>. With \<open>UserCreator\<close> bound by the declaration of line 284,
  \<open>user1\<close> is linked to \<^verbatim>\<open>userCreator.prototype\<close>, which has no \<open>increment\<close>, and line 280
  throws a TypeError with the score of \<open>user1\<close> still 9. And when that \<open>increment\<close> is run
  with \<open>user1\<close> as its receiver, the plain inner function \<open>add1\<close> runs with the global
  object as receiver: the call completes, the global object gets a \<open>score\<close> of \<open>NaN\<close>, the
  score of \<open>user1\<close> is still 9, and the result is not what \<open>add1\<close> does with \<open>user1\<close> as
  receiver.
\<close>

theorem lines_262_280_do_not_increment:
  "lines_262_280 None initial_state =
     Some (Throw (ReferenceError ''UserCreator is not defined'')
             (snd (function_prototype Fn_userCreator initial_state)))
   \<and> lines_262_280 (Some 2) UserCreator_declared_state =
       Some (Throw (TypeError ''increment is not a function'') plain_add1_state)
   \<and> own plain_add1_state 4 ''score'' = Some (VNum 9)
   \<and> get_prop (heap plain_add1_state) 2 ''increment'' = Some (VFun Fn_increment_add1_plain)
   \<and> invokeWith 2 ''increment'' 4 [] plain_add1_state =
       Some (Normal VUndef (set_own globalThis ''score'' VNaN plain_add1_state))
   \<and> own (set_own globalThis ''score'' VNaN plain_add1_state) 4 ''score'' = Some (VNum 9)
   \<and> own (set_own globalThis ''score'' VNaN plain_add1_state) globalThis ''score'' = Some VNaN
   \<and> add1 4 plain_add1_state =
       Some (Normal VUndef (set_own 4 ''score'' (VNum 10) plain_add1_state))
   \<and> invokeWith 2 ''increment'' 4 [] plain_add1_state \<noteq> add1 4 plain_add1_state"
proof -
  let ?S = "plain_add1_state"
  have r: "lines_262_280 None initial_state =
     Some (Throw (ReferenceError ''UserCreator is not defined'')
             (snd (function_prototype Fn_userCreator initial_state)))"
    by (simp add: lines_262_280_def split: prod.splits)
  have u: "get_prop (heap ?S) 4 ''increment'' = Some VUndef"
    by (simp add: plain_add1_state_eq get_prop.simps)
  have c: "new_userCreator 3 (VStr ''Eva'') (VNum 9)
            (set_own 2 ''login'' (VFun (Fn_login ''Login''))
              (set_own 2 ''increment'' (VFun Fn_increment_add1_plain)
                (snd (function_prototype Fn_userCreator UserCreator_declared_state)))) = (4, ?S)"
    by (simp add: plain_add1_state_def UserCreator_declared_state_def new_userCreator_def
        function_prototype_def object_literal_def Object_create_def alloc_def
        initial_state_def set_own_def)
  have f: "function_prototype Fn_userCreator UserCreator_declared_state =
             (3, snd (function_prototype Fn_userCreator UserCreator_declared_state))"
    by (simp add: UserCreator_declared_state_def function_prototype_def object_literal_def
        alloc_def initial_state_def)
  have t: "lines_262_280 (Some 2) UserCreator_declared_state =
       Some (Throw (TypeError ''increment is not a function'') ?S)"
    unfolding lines_262_280_def by (subst f) (simp add: c invoke_def u)
  have o: "own ?S 4 ''score'' = Some (VNum 9)" by (simp add: plain_add1_state_eq own_def)
  have l: "4 < length (heap ?S)" by (simp add: plain_add1_state_eq)
  have g: "get_prop (heap ?S) 2 ''increment'' = Some (VFun Fn_increment_add1_plain)"
    by (simp add: plain_add1_state_eq get_prop.simps)
  have gs: "get_prop (heap ?S) globalThis ''score'' = Some VUndef"
    by (simp add: plain_add1_state_eq globalThis_def get_prop.simps)
  have i: "invokeWith 2 ''increment'' 4 [] ?S =
       Some (Normal VUndef (set_own globalThis ''score'' VNaN ?S))"
    by (simp add: invokeWith_def g increment_add1_plain_def add1_def postfix_inc_def gs)
  have e: "add1 4 ?S = Some (Normal VUndef (set_own 4 ''score'' (VNum 10) ?S))"
    using postfix_inc_own_num [OF l o] by (simp add: add1_def round_double_safe)
  have d: "own (set_own globalThis ''score'' VNaN ?S) 4 ''score'' = Some (VNum 9)"
    using o by (simp add: globalThis_def)
  have n: "own (set_own globalThis ''score'' VNaN ?S) globalThis ''score'' = Some VNaN"
    by (simp add: plain_add1_state_eq globalThis_def)
  have w: "own (set_own 4 ''score'' (VNum 10) ?S) 4 ''score'' = Some (VNum 10)"
    using l by simp
  have ne: "set_own globalThis ''score'' VNaN ?S \<noteq> set_own 4 ''score'' (VNum 10) ?S"
  proof
    assume eq: "set_own globalThis ''score'' VNaN ?S = set_own 4 ''score'' (VNum 10) ?S"
    have "own (set_own globalThis ''score'' VNaN ?S) 4 ''score'' =
          own (set_own 4 ''score'' (VNum 10) ?S) 4 ''score''"
      by (simp only: eq)
    then have "Some (VNum 9) = Some (VNum 10)" unfolding d w .
    then show False by simp
  qed
  from r t o g i d n e ne show ?thesis by simp
qed

section \<open>What the factories build\<close>

lemma Object_create_facts:
  assumes "Object_create p s = (e, s1)"
  shows "e = length (heap s)" and "length (heap s1) = Suc (length (heap s))"
    and "own s1 e n = None" and "proto_of s1 e = p"
    and "a < length (heap s) \<Longrightarrow> heap s1 ! a = heap s ! a"
    and "console s1 = console s"
  using assms
  by (auto simp: Object_create_def alloc_def own_def proto_of_def nth_append)

lemma new_userCreator_facts:
  assumes "new_userCreator P name score s = (e, s1)"
  shows "e = length (heap s)" and "length (heap s1) = Suc (length (heap s))"
    and "own s1 e n =
           (if n = ''score'' then Some score else if n = ''name'' then Some name else None)"
    and "proto_of s1 e = Some P"
    and "a < length (heap s) \<Longrightarrow> heap s1 ! a = heap s ! a"
    and "console s1 = console s"
proof -
  obtain s0 where c: "Object_create (Some P) s = (e, s0)"
    and s1: "s1 = userCreator_body e name score s0"
    using assms by (auto simp: new_userCreator_def split: prod.splits)
  note f = Object_create_facts [OF c]
  have lt: "e < length (heap s0)" using f(1,2) by simp
  show "e = length (heap s)" by (rule f(1))
  show "length (heap s1) = Suc (length (heap s))" by (simp add: s1 userCreator_body_def f(2))
  show "own s1 e n =
           (if n = ''score'' then Some score else if n = ''name'' then Some name else None)"
    using lt by (simp add: s1 userCreator_body_def f(3))
  show "proto_of s1 e = Some P" by (simp add: s1 userCreator_body_def f(4))
  show "a < length (heap s) \<Longrightarrow> heap s1 ! a = heap s ! a"
    using f(1) f(5) [of a] by (simp add: s1 userCreator_body_def set_own_other)
  show "console s1 = console s" by (simp add: s1 userCreator_body_def f(6))
qed

lemma userCreator_sol2_eq: "userCreator_sol2 P name score s = new_userCreator P name score s"
  by (simp add: userCreator_sol2_def new_userCreator_def userCreator_body_def)

lemma new_userCreator_delegates:
  assumes "new_userCreator P name score s = (e, s1)"
    and "P < length (heap s)" and "own s P n = Some (VFun f)"
    and "n \<noteq> ''score''" and "n \<noteq> ''name''"
  shows "delegates s1 e n f"
proof -
  note f = new_userCreator_facts [OF assms(1)]
  have "own s1 P n = Some (VFun f)"
    using f(5) [OF assms(2)] assms(3) by (simp add: own_def)
  moreover have "e < length (heap s1)" "P < length (heap s1)"
    using assms(2) f(1,2) by simp_all
  ultimately show ?thesis
    using assms(4,5) by (simp add: delegates_def f(3) f(4))
qed

lemma delegates_set_own_other:
  "delegates s e n f \<Longrightarrow> m \<noteq> n \<Longrightarrow> delegates (set_own a m v s) e n f"
  by (auto simp: delegates_def split: option.splits)

lemma invoke_increment_this:
  assumes "delegates s e ''increment'' Fn_increment_this"
    and "own s e ''score'' = Some (VNum v)"
  shows "invoke e ''increment'' args s =
           Some (Normal VUndef (set_own e ''score'' (VNum (round_double (v + 1))) s))"
proof -
  have "e < length (heap s)" using assms(1) by (simp add: delegates_def)
  then show ?thesis
    using delegates_invoke [OF assms(1)] assms(2) by (simp add: postfix_inc_own_num)
qed

lemma invoke_n_postfix:
  assumes f: "\<And>this t. call_fn f this [] t = postfix_inc this fld t"
    and ne: "op \<noteq> fld"
    and "delegates s e op f"
    and "own s e fld = Some (VNum b)"
    and "- (2 ^ 53) \<le> b" and "b + int n \<le> 2 ^ 53"
  shows "\<exists>s'. invoke_n n e op s = Some (Normal VUndef s')
           \<and> own s' e fld = Some (VNum (b + int n))
           \<and> delegates s' e op f
           \<and> (\<forall>a m. (a, m) \<noteq> (e, fld) \<longrightarrow> own s' a m = own s a m)
           \<and> (\<forall>a. proto_of s' a = proto_of s a)
           \<and> console s' = console s"
  using assms(3-)
proof (induction n arbitrary: s b)
  case 0
  then show ?case by simp
next
  case (Suc n)
  let ?s1 = "set_own e fld (VNum (b + 1)) s"
  have r: "round_double (b + 1) = b + 1"
    using Suc.prems(3,4) by (intro round_double_safe) simp
  have lt: "e < length (heap s)" using Suc.prems(1) by (simp add: delegates_def)
  have i: "invoke e op [] s = Some (Normal VUndef ?s1)"
    using delegates_invoke [OF Suc.prems(1), of "[]"] postfix_inc_own_num [OF lt Suc.prems(2)]
    by (simp add: f r)
  have d: "delegates ?s1 e op f"
    using Suc.prems(1) ne by (intro delegates_set_own_other) simp_all
  have o: "own ?s1 e fld = Some (VNum (b + 1))" using lt by simp
  from Suc.IH [OF d o] Suc.prems(3,4)
  obtain s' where s': "invoke_n n e op ?s1 = Some (Normal VUndef s')"
    "own s' e fld = Some (VNum (b + 1 + int n))"
    "delegates s' e op f"
    "\<forall>a m. (a, m) \<noteq> (e, fld) \<longrightarrow> own s' a m = own ?s1 a m"
    "\<forall>a. proto_of s' a = proto_of ?s1 a"
    "console s' = console ?s1"
    by auto
  have "\<forall>a m. (a, m) \<noteq> (e, fld) \<longrightarrow> own s' a m = own s a m"
    using s'(4) by auto
  moreover have "\<forall>a. proto_of s' a = proto_of s a" using s'(5) by simp
  moreover have "console s' = console s" using s'(6) by simp
  moreover have "own s' e fld = Some (VNum (b + int (Suc n)))"
    using s'(2) by (simp add: algebra_simps)
  moreover have "invoke_n (Suc n) e op s = Some (Normal VUndef s')"
    using i s'(1) by simp
  ultimately show ?case using s'(3) by blast
qed

lemma invoke_n_increment:
  assumes "delegates s e ''increment'' Fn_increment_this"
    and "own s e ''score'' = Some (VNum sc)"
    and "- (2 ^ 53) \<le> sc" and "sc + int n \<le> 2 ^ 53"
  shows "\<exists>s'. invoke_n n e ''increment'' s = Some (Normal VUndef s')
           \<and> own s' e ''score'' = Some (VNum (sc + int n))
           \<and> delegates s' e ''increment'' Fn_increment_this"
  using invoke_n_postfix [of Fn_increment_this "''score''" "''increment''" s e sc n] assms
  by auto

lemma sub_prototypes_state_eq:
  "sub_prototypes_state =
     \<lparr>heap = [\<lparr>props = Map.empty, proto = Some 1\<rparr>,
              \<lparr>props = [''hasOwnProperty'' \<mapsto> VFun Fn_hasOwnProperty], proto = None\<rparr>,
              \<lparr>props = [''constructor'' \<mapsto> VFun Fn_userCreator, ''sayName'' \<mapsto> VFun Fn_sayName,
                        ''increment'' \<mapsto> VFun Fn_increment_this], proto = Some 1\<rparr>,
              \<lparr>props = [''increaseBalance'' \<mapsto> VFun Fn_increaseBalance], proto = Some 2\<rparr>],
      console = []\<rparr>"
  by (simp add: sub_prototypes_state_def paidUserCreator_prototype_sub_def
      userCreator_prototype_sub_def function_prototype_def object_literal_def
      Object_create_def alloc_def initial_state_def set_own_def Object_prototype_def)

lemma sub_prototypes_state_increment:
  "2 < length (heap sub_prototypes_state)"
  "own sub_prototypes_state 2 ''increment'' = Some (VFun Fn_increment_this)"
  by (simp_all add: sub_prototypes_state_eq own_def)

lemma round_double_2_53: "round_double (9007199254740992 + 1) = 9007199254740992"
  unfolding round_double_def Let_def by (simp add: bit_length.simps)

lemma big_score_state_user:
  "new_userCreator 2 (VStr ''Phil'') (VNum 9007199254740992) sub_prototypes_state =
     (4, big_score_state)"
  by (simp add: big_score_state_def new_userCreator_def Object_create_def alloc_def
      sub_prototypes_state_eq)

section \<open>Incrementing the score of a base user\<close>

text \<open>
  Claim C2, amended. A user made by the base factory (\<open>Object.create\<close> on the shared
  store in solution 2, \<open>new\<close> on the constructor or the class in solutions 3 and 4)
  delegates \<open>increment\<close> to its prototype and owns the score it was given. For such a
  user with an integer score \<open>sc\<close>, \<open>n\<close> calls of \<open>increment\<close> all complete and leave the
  score at \<open>sc + n\<close>, as long as \<open>-2^53 \<le> sc\<close> and \<open>sc + n \<le> 2^53\<close>.
\<close>

theorem increment_n_times_in_safe_range:
  "(P < length (heap s) \<and> own s P ''increment'' = Some (VFun Fn_increment_this) \<longrightarrow>
      (new_userCreator P name score s = (e, s1) \<longrightarrow>
         delegates s1 e ''increment'' Fn_increment_this \<and> own s1 e ''score'' = Some score)
      \<and> (userCreator_sol2 P name score s = (e, s1) \<longrightarrow>
         delegates s1 e ''increment'' Fn_increment_this \<and> own s1 e ''score'' = Some score))
   \<and> (delegates s2 u ''increment'' Fn_increment_this \<and> own s2 u ''score'' = Some (VNum sc)
        \<and> - (2 ^ 53) \<le> sc \<and> sc + int n \<le> 2 ^ 53 \<longrightarrow>
        (\<exists>s'. invoke_n n u ''increment'' s2 = Some (Normal VUndef s')
           \<and> own s' u ''score'' = Some (VNum (sc + int n))))"
proof (intro conjI impI)
  assume a: "P < length (heap s) \<and> own s P ''increment'' = Some (VFun Fn_increment_this)"
  {
    assume c: "new_userCreator P name score s = (e, s1)"
    have "delegates s1 e ''increment'' Fn_increment_this"
      using a by (intro new_userCreator_delegates [OF c]) simp_all
    moreover have "own s1 e ''score'' = Some score"
      by (simp add: new_userCreator_facts(3) [OF c])
    ultimately have "delegates s1 e ''increment'' Fn_increment_this
        \<and> own s1 e ''score'' = Some score" ..
  }
  note n = this
  show "new_userCreator P name score s = (e, s1) \<Longrightarrow>
      delegates s1 e ''increment'' Fn_increment_this" using n by simp
  show "new_userCreator P name score s = (e, s1) \<Longrightarrow> own s1 e ''score'' = Some score"
    using n by simp
  show "userCreator_sol2 P name score s = (e, s1) \<Longrightarrow>
      delegates s1 e ''increment'' Fn_increment_this" using n by (simp add: userCreator_sol2_eq)
  show "userCreator_sol2 P name score s = (e, s1) \<Longrightarrow> own s1 e ''score'' = Some score"
    using n by (simp add: userCreator_sol2_eq)
next
  assume "delegates s2 u ''increment'' Fn_increment_this \<and> own s2 u ''score'' = Some (VNum sc)
        \<and> - (2 ^ 53) \<le> sc \<and> sc + int n \<le> 2 ^ 53"
  then show "\<exists>s'. invoke_n n u ''increment'' s2 = Some (Normal VUndef s')
           \<and> own s' u ''score'' = Some (VNum (sc + int n))"
    using invoke_n_increment [of s2 u sc n] by blast
qed

lemma phil_state_user:
  "new_userCreator 2 (VStr ''Phil'') (VNum 5) sub_prototypes_state = (4, phil_state)"
  by (simp add: phil_state_def new_userCreator_def Object_create_def alloc_def
      sub_prototypes_state_eq)

theorem increment_n_times_in_safe_range_witness:
  "2 < length (heap sub_prototypes_state)
   \<and> own sub_prototypes_state 2 ''increment'' = Some (VFun Fn_increment_this)
   \<and> new_userCreator 2 (VStr ''Phil'') (VNum 5) sub_prototypes_state = (4, phil_state)
   \<and> delegates phil_state 4 ''increment'' Fn_increment_this
   \<and> own phil_state 4 ''score'' = Some (VNum 5)
   \<and> (\<exists>s'. invoke_n 3 4 ''increment'' phil_state = Some (Normal VUndef s')
        \<and> own s' 4 ''score'' = Some (VNum 8))"
  using increment_n_times_in_safe_range
    [of 2 sub_prototypes_state "VStr ''Phil''" "VNum 5" 4 phil_state phil_state 4 5 3]
    sub_prototypes_state_increment phil_state_user
  by simp

text \<open>
  The claim as stated, with no upper bound, fails at the score \<open>2^53\<close>: the next double
  above it is \<open>2^53 + 2\<close>, the sum \<open>2^53 + 1\<close> rounds back to \<open>2^53\<close>, and \<open>increment\<close>
  completes with the score unchanged.
\<close>

theorem increment_stuck_at_2_53:
  "delegates big_score_state 4 ''increment'' Fn_increment_this
   \<and> own big_score_state 4 ''score'' = Some (VNum 9007199254740992)
   \<and> invoke_n 1 4 ''increment'' big_score_state =
       Some (Normal VUndef (set_own 4 ''score'' (VNum 9007199254740992) big_score_state))
   \<and> own (set_own 4 ''score'' (VNum 9007199254740992) big_score_state) 4 ''score'' \<noteq>
       Some (VNum (9007199254740992 + 1))"
proof -
  have d: "delegates big_score_state 4 ''increment'' Fn_increment_this"
    using sub_prototypes_state_increment
    by (intro new_userCreator_delegates [OF big_score_state_user]) simp_all
  have o: "own big_score_state 4 ''score'' = Some (VNum 9007199254740992)"
    by (simp add: new_userCreator_facts(3) [OF big_score_state_user])
  have l: "4 < length (heap big_score_state)"
    using d by (simp add: delegates_def)
  have i: "invoke 4 ''increment'' [] big_score_state =
       Some (Normal VUndef (set_own 4 ''score'' (VNum 9007199254740992) big_score_state))"
    using invoke_increment_this [OF d o, of "[]"] by (simp only: round_double_2_53)
  have "invoke_n (Suc 0) 4 ''increment'' big_score_state =
       Some (Normal VUndef (set_own 4 ''score'' (VNum 9007199254740992) big_score_state))"
    by (simp add: i)
  then show ?thesis using d o l by simp
qed

lemma new_paidUserCreator_facts:
  assumes "new_paidUserCreator P name score bal s = (e, s1)"
  shows "e = length (heap s)" and "length (heap s1) = Suc (length (heap s))"
    and "own s1 e n =
           (if n = ''accountBalance'' then Some bal
            else if n = ''score'' then Some score
            else if n = ''name'' then Some name else None)"
    and "proto_of s1 e = Some P"
    and "a < length (heap s) \<Longrightarrow> heap s1 ! a = heap s ! a"
    and "console s1 = console s"
proof -
  obtain s0 where c: "Object_create (Some P) s = (e, s0)"
    and s1: "s1 = paidUserCreator_body e name score bal s0"
    using assms by (auto simp: new_paidUserCreator_def split: prod.splits)
  note f = Object_create_facts [OF c]
  have lt: "e < length (heap s0)" using f(1,2) by simp
  show "e = length (heap s)" by (rule f(1))
  show "length (heap s1) = Suc (length (heap s))"
    by (simp add: s1 paidUserCreator_body_def userCreator_body_def f(2))
  show "own s1 e n =
           (if n = ''accountBalance'' then Some bal
            else if n = ''score'' then Some score
            else if n = ''name'' then Some name else None)"
    using lt by (simp add: s1 paidUserCreator_body_def userCreator_body_def f(3))
  show "proto_of s1 e = Some P"
    by (simp add: s1 paidUserCreator_body_def userCreator_body_def f(4))
  show "a < length (heap s) \<Longrightarrow> heap s1 ! a = heap s ! a"
    using f(1) f(5) [of a]
    by (simp add: s1 paidUserCreator_body_def userCreator_body_def set_own_other)
  show "console s1 = console s"
    by (simp add: s1 paidUserCreator_body_def userCreator_body_def f(6))
qed

lemma new_paidUserCreator_delegates:
  assumes "new_paidUserCreator P name score bal s = (e, s1)"
    and "P < length (heap s)" and "own s P n = Some (VFun f)"
    and "n \<noteq> ''accountBalance''" and "n \<noteq> ''score''" and "n \<noteq> ''name''"
  shows "delegates s1 e n f"
proof -
  note f = new_paidUserCreator_facts [OF assms(1)]
  have "own s1 P n = Some (VFun f)"
    using f(5) [OF assms(2)] assms(3) by (simp add: own_def)
  moreover have "e < length (heap s1)" "P < length (heap s1)"
    using assms(2) f(1,2) by simp_all
  ultimately show ?thesis
    using assms(4,5,6) by (simp add: delegates_def f(3) f(4))
qed

lemma sub_state_eq:
  "sub_state =
     \<lparr>heap = [\<lparr>props = Map.empty, proto = Some 1\<rparr>,
              \<lparr>props = [''hasOwnProperty'' \<mapsto> VFun Fn_hasOwnProperty], proto = None\<rparr>,
              \<lparr>props = [''constructor'' \<mapsto> VFun Fn_userCreator, ''sayName'' \<mapsto> VFun Fn_sayName,
                        ''increment'' \<mapsto> VFun Fn_increment_this], proto = Some 1\<rparr>,
              \<lparr>props = [''increaseBalance'' \<mapsto> VFun Fn_increaseBalance], proto = Some 2\<rparr>,
              \<lparr>props = [''name'' \<mapsto> VStr ''Phil'', ''score'' \<mapsto> VNum 5], proto = Some 2\<rparr>,
              \<lparr>props = [''name'' \<mapsto> VStr ''Tim'', ''score'' \<mapsto> VNum 4], proto = Some 2\<rparr>,
              \<lparr>props = [''name'' \<mapsto> VStr ''Alyssa'', ''score'' \<mapsto> VNum 8,
                        ''accountBalance'' \<mapsto> VNum 25], proto = Some 3\<rparr>],
      console = []\<rparr>"
  by (simp add: sub_state_def tim_state_def phil_state_def new_paidUserCreator_def new_userCreator_def
      Object_create_def alloc_def sub_prototypes_state_eq paidUserCreator_body_def
      userCreator_body_def set_own_def)

lemma sub_state_paid: "delegates sub_state 6 ''increaseBalance'' Fn_increaseBalance"
  "own sub_state 6 ''accountBalance'' = Some (VNum 25)"
  "own sub_state 6 ''score'' = Some (VNum 8)"
  by (simp_all add: sub_state_eq delegates_def own_def proto_of_def)

lemma sub_state_increaseBalance:
  "invoke 6 ''increaseBalance'' [] sub_state =
     Some (Normal VUndef (set_own 6 ''accountBalance'' (VNum 26) sub_state))"
proof -
  have l: "6 < length (heap sub_state)" by (simp add: sub_state_eq)
  show ?thesis
    using delegates_invoke [OF sub_state_paid(1), of "[]"]
      postfix_inc_own_num [OF l sub_state_paid(2)]
    by (simp add: round_double_safe)
qed

lemma sub_state_paid_increment:
  "get_prop (heap (set_own 6 ''accountBalance'' (VNum 26) sub_state)) 6 ''increment'' =
     Some (VFun Fn_increment_this)"
  by (simp add: sub_state_eq set_own_def get_prop.simps)

lemma sub_state_increment:
  "invoke 6 ''increment'' [] (set_own 6 ''accountBalance'' (VNum 26) sub_state) =
     Some (Normal VUndef
       (set_own 6 ''score'' (VNum 9) (set_own 6 ''accountBalance'' (VNum 26) sub_state)))"
proof -
  let ?A = "set_own 6 ''accountBalance'' (VNum 26) sub_state"
  have l: "6 < length (heap ?A)" by (simp add: sub_state_eq)
  have o: "own ?A 6 ''score'' = Some (VNum 8)" by (simp add: sub_state_paid(3))
  show ?thesis
    using postfix_inc_own_num [OF l o]
    by (simp add: invoke_def sub_state_paid_increment round_double_safe)
qed


lemma sub_state_paid_user:
  "new_paidUserCreator 3 (VStr ''Alyssa'') (VNum 8) (VNum 25)
     tim_state = (6, sub_state)"
  by (simp add: sub_state_def tim_state_def phil_state_def new_paidUserCreator_def new_userCreator_def
      Object_create_def alloc_def sub_prototypes_state_eq paidUserCreator_body_def
      userCreator_body_def set_own_def)

lemma tim_state_prototype:
  "3 < length (heap tim_state)"
  "own tim_state 3 ''increaseBalance'' =
     Some (VFun Fn_increaseBalance)"
  by (simp_all add: tim_state_def phil_state_def new_userCreator_def Object_create_def
      alloc_def sub_prototypes_state_eq userCreator_body_def set_own_def own_def)

lemma big_balance_state_user:
  "new_paidUserCreator 3 (VStr ''Alyssa'') (VNum 8) (VNum 9007199254740992)
     sub_prototypes_state = (4, big_balance_state)"
  by (simp add: big_balance_state_def new_paidUserCreator_def Object_create_def alloc_def
      sub_prototypes_state_eq)

lemma sub_prototypes_state_increaseBalance:
  "3 < length (heap sub_prototypes_state)"
  "own sub_prototypes_state 3 ''increaseBalance'' = Some (VFun Fn_increaseBalance)"
  by (simp_all add: sub_prototypes_state_eq own_def)

section \<open>Increasing the balance of a paid user\<close>

text \<open>
  Claim C3, amended. A paid user made by \<^verbatim>\<open>new paidUserCreator(name, score, balance)\<close>
  delegates \<open>increaseBalance\<close> to its prototype and owns the balance and the score it was
  given. For such a user with an integer balance \<open>b\<close>, \<open>n\<close> calls of \<open>increaseBalance\<close>
  all complete, leave the balance at \<open>b + n\<close> as long as \<open>-2^53 \<le> b\<close> and
  \<open>b + n \<le> 2^53\<close>, and leave the score as it was. In particular, after
  \<^verbatim>\<open>new paidUserCreator('Alyssa', 8, 25)\<close> (line 467), one \<open>increaseBalance\<close> and one
  \<open>increment\<close> give the balance 26 and the score 9.
\<close>

theorem increaseBalance_n_times_in_safe_range:
  "(PP < length (heap s) \<and> own s PP ''increaseBalance'' = Some (VFun Fn_increaseBalance)
      \<and> new_paidUserCreator PP name score bal s = (p, s1) \<longrightarrow>
      delegates s1 p ''increaseBalance'' Fn_increaseBalance
      \<and> own s1 p ''accountBalance'' = Some bal \<and> own s1 p ''score'' = Some score)
   \<and> (delegates s2 u ''increaseBalance'' Fn_increaseBalance
        \<and> own s2 u ''accountBalance'' = Some (VNum b)
        \<and> - (2 ^ 53) \<le> b \<and> b + int n \<le> 2 ^ 53 \<longrightarrow>
        (\<exists>s'. invoke_n n u ''increaseBalance'' s2 = Some (Normal VUndef s')
           \<and> own s' u ''accountBalance'' = Some (VNum (b + int n))
           \<and> own s' u ''score'' = own s2 u ''score''))
   \<and> new_paidUserCreator 3 (VStr ''Alyssa'') (VNum 8) (VNum 25)
        tim_state = (6, sub_state)
   \<and> invoke 6 ''increaseBalance'' [] sub_state =
        Some (Normal VUndef (set_own 6 ''accountBalance'' (VNum 26) sub_state))
   \<and> invoke 6 ''increment'' [] (set_own 6 ''accountBalance'' (VNum 26) sub_state) =
        Some (Normal VUndef
          (set_own 6 ''score'' (VNum 9) (set_own 6 ''accountBalance'' (VNum 26) sub_state)))
   \<and> own (set_own 6 ''score'' (VNum 9) (set_own 6 ''accountBalance'' (VNum 26) sub_state))
        6 ''accountBalance'' = Some (VNum 26)
   \<and> own (set_own 6 ''score'' (VNum 9) (set_own 6 ''accountBalance'' (VNum 26) sub_state))
        6 ''score'' = Some (VNum 9)"
proof (intro conjI impI)
  assume a: "PP < length (heap s) \<and> own s PP ''increaseBalance'' = Some (VFun Fn_increaseBalance)
      \<and> new_paidUserCreator PP name score bal s = (p, s1)"
  then have c: "new_paidUserCreator PP name score bal s = (p, s1)" by simp
  show "delegates s1 p ''increaseBalance'' Fn_increaseBalance"
    using a by (intro new_paidUserCreator_delegates [OF c]) simp_all
  show "own s1 p ''accountBalance'' = Some bal"
    by (simp add: new_paidUserCreator_facts(3) [OF c])
  show "own s1 p ''score'' = Some score"
    by (simp add: new_paidUserCreator_facts(3) [OF c])
next
  assume "delegates s2 u ''increaseBalance'' Fn_increaseBalance
        \<and> own s2 u ''accountBalance'' = Some (VNum b)
        \<and> - (2 ^ 53) \<le> b \<and> b + int n \<le> 2 ^ 53"
  then obtain s' where "invoke_n n u ''increaseBalance'' s2 = Some (Normal VUndef s')"
    "own s' u ''accountBalance'' = Some (VNum (b + int n))"
    "\<forall>a m. (a, m) \<noteq> (u, ''accountBalance'') \<longrightarrow> own s' a m = own s2 a m"
    using invoke_n_postfix
      [of Fn_increaseBalance "''accountBalance''" "''increaseBalance''" s2 u b n]
    by auto
  moreover from this(3) have "own s' u ''score'' = own s2 u ''score''" by simp
  ultimately show "\<exists>s'. invoke_n n u ''increaseBalance'' s2 = Some (Normal VUndef s')
           \<and> own s' u ''accountBalance'' = Some (VNum (b + int n))
           \<and> own s' u ''score'' = own s2 u ''score''" by blast
next
  show "new_paidUserCreator 3 (VStr ''Alyssa'') (VNum 8) (VNum 25)
        tim_state = (6, sub_state)"
    by (rule sub_state_paid_user)
  show "invoke 6 ''increaseBalance'' [] sub_state =
        Some (Normal VUndef (set_own 6 ''accountBalance'' (VNum 26) sub_state))"
    by (rule sub_state_increaseBalance)
  show "invoke 6 ''increment'' [] (set_own 6 ''accountBalance'' (VNum 26) sub_state) =
        Some (Normal VUndef
          (set_own 6 ''score'' (VNum 9) (set_own 6 ''accountBalance'' (VNum 26) sub_state)))"
    by (rule sub_state_increment)
  have l: "6 < length (heap sub_state)" by (simp add: sub_state_eq)
  show "own (set_own 6 ''score'' (VNum 9) (set_own 6 ''accountBalance'' (VNum 26) sub_state))
        6 ''accountBalance'' = Some (VNum 26)"
    using l by simp
  show "own (set_own 6 ''score'' (VNum 9) (set_own 6 ''accountBalance'' (VNum 26) sub_state))
        6 ''score'' = Some (VNum 9)"
    using l by simp
qed

theorem increaseBalance_n_times_in_safe_range_witness:
  "3 < length (heap tim_state)
   \<and> own tim_state 3 ''increaseBalance'' =
       Some (VFun Fn_increaseBalance)
   \<and> new_paidUserCreator 3 (VStr ''Alyssa'') (VNum 8) (VNum 25)
        tim_state = (6, sub_state)
   \<and> delegates sub_state 6 ''increaseBalance'' Fn_increaseBalance
   \<and> own sub_state 6 ''accountBalance'' = Some (VNum 25)
   \<and> (\<exists>s'. invoke_n 2 6 ''increaseBalance'' sub_state = Some (Normal VUndef s')
        \<and> own s' 6 ''accountBalance'' = Some (VNum 27)
        \<and> own s' 6 ''score'' = Some (VNum 8))"
  using increaseBalance_n_times_in_safe_range
    [of 3 tim_state "VStr ''Alyssa''"
      "VNum 8" "VNum 25" 6 sub_state sub_state 6 25 2]
    tim_state_prototype sub_state_paid
  by simp

text \<open>
  The claim as stated fails at the balance \<open>2^53\<close>: \<open>increaseBalance\<close> completes and the
  balance is unchanged.
\<close>

theorem increaseBalance_stuck_at_2_53:
  "delegates big_balance_state 4 ''increaseBalance'' Fn_increaseBalance
   \<and> own big_balance_state 4 ''accountBalance'' = Some (VNum 9007199254740992)
   \<and> invoke_n 1 4 ''increaseBalance'' big_balance_state =
       Some (Normal VUndef
         (set_own 4 ''accountBalance'' (VNum 9007199254740992) big_balance_state))
   \<and> own (set_own 4 ''accountBalance'' (VNum 9007199254740992) big_balance_state)
        4 ''accountBalance'' \<noteq> Some (VNum (9007199254740992 + 1))"
proof -
  have d: "delegates big_balance_state 4 ''increaseBalance'' Fn_increaseBalance"
    using sub_prototypes_state_increaseBalance
    by (intro new_paidUserCreator_delegates [OF big_balance_state_user]) simp_all
  have o: "own big_balance_state 4 ''accountBalance'' = Some (VNum 9007199254740992)"
    by (simp add: new_paidUserCreator_facts(3) [OF big_balance_state_user])
  have l: "4 < length (heap big_balance_state)"
    using d by (simp add: delegates_def)
  have "postfix_inc 4 ''accountBalance'' big_balance_state =
       Some (Normal VUndef
         (set_own 4 ''accountBalance'' (VNum 9007199254740992) big_balance_state))"
    using postfix_inc_own_num [OF l o] by (simp only: round_double_2_53)
  then have i: "invoke 4 ''increaseBalance'' [] big_balance_state =
       Some (Normal VUndef
         (set_own 4 ''accountBalance'' (VNum 9007199254740992) big_balance_state))"
    using delegates_invoke [OF d, of "[]"] by simp
  have "invoke_n (Suc 0) 4 ''increaseBalance'' big_balance_state =
       Some (Normal VUndef
         (set_own 4 ''accountBalance'' (VNum 9007199254740992) big_balance_state))"
    by (simp add: i)
  then show ?thesis using d o l by simp
qed

lemma sol2_sub_state_eq:
  "sol2_sub_state =
     \<lparr>heap = [\<lparr>props = Map.empty, proto = Some 1\<rparr>,
              \<lparr>props = [''hasOwnProperty'' \<mapsto> VFun Fn_hasOwnProperty], proto = None\<rparr>,
              \<lparr>props = [''sayName'' \<mapsto> VFun Fn_sayName, ''increment'' \<mapsto> VFun Fn_increment_this],
                proto = Some 1\<rparr>,
              \<lparr>props = [''name'' \<mapsto> VStr ''Phil'', ''score'' \<mapsto> VNum 5], proto = Some 2\<rparr>,
              \<lparr>props = [''increaseBalance'' \<mapsto> VFun Fn_increaseBalance], proto = Some 2\<rparr>],
      console = []\<rparr>"
  by (simp add: sol2_sub_state_def sol2_literals_state_def userFunctions_literal_def
      userCreator_sol2_def
      paidUserFunctions_literal_def object_literal_def Object_create_def alloc_def
      initial_state_def set_own_def Object_prototype_def Object_setPrototypeOf_def
      proto_chain_reaches.simps)

section \<open>The paid factories\<close>

text \<open>The paid factory of solution 3 (lines 455-465): on a paid user, \<open>increment\<close> and
  \<open>sayName\<close> are found two levels up, on \<^verbatim>\<open>userCreator.prototype\<close>, and run with the paid
  user as receiver.\<close>

lemma paid_user_base_operations:
  assumes c: "new_paidUserCreator PP name (VNum sc) bal s = (p, s1)"
    and PP: "PP < length (heap s)" "own s PP ''increment'' = None" "own s PP ''sayName'' = None"
      "proto_of s PP = Some PU"
    and PU: "PU < length (heap s)" "own s PU ''increment'' = Some (VFun Fn_increment_this)"
      "own s PU ''sayName'' = Some (VFun Fn_sayName)"
  shows "invoke p ''increment'' [] s1 =
           Some (Normal VUndef (set_own p ''score'' (VNum (round_double (sc + 1))) s1))"
    and "name = VStr nm \<Longrightarrow>
         invoke p ''sayName'' [] s1 = Some (Normal VUndef (console_log (''I am '' @ nm) s1))"
proof -
  note f = new_paidUserCreator_facts [OF c]
  have lp: "p < length (heap s1)" "PP < length (heap s1)" "PU < length (heap s1)"
    using f(1,2) PP(1) PU(1) by simp_all
  have oPP: "own s1 PP n = own s PP n" "proto_of s1 PP = proto_of s PP" for n
    using f(5) [OF PP(1)] by (simp_all add: own_def proto_of_def)
  have oPU: "own s1 PU n = own s PU n" for n
    using f(5) [OF PU(1)] by (simp add: own_def)
  have up: "get_prop (heap s1) p n = get_prop (heap s1) PU n"
    if "n = ''increment'' \<or> n = ''sayName''" for n
  proof -
    have "get_prop (heap s1) p n = get_prop (heap s1) PP n"
      using that lp(1) f(3) [of n] f(4)
      by (intro get_prop_proto) (auto simp: own_def proto_of_def)
    also have "\<dots> = get_prop (heap s1) PU n"
      using that lp(2) oPP(1) [of n] oPP(2) PP(2,3,4)
      by (intro get_prop_proto) (auto simp: own_def proto_of_def)
    finally show ?thesis .
  qed
  have gi: "get_prop (heap s1) p ''increment'' = Some (VFun Fn_increment_this)"
    using up [of "''increment''"] lp(3) oPU [of "''increment''"] PU(2)
    by (simp add: get_prop_own own_def)
  have gs: "get_prop (heap s1) p ''sayName'' = Some (VFun Fn_sayName)"
    using up [of "''sayName''"] lp(3) oPU [of "''sayName''"] PU(3)
    by (simp add: get_prop_own own_def)
  have sc: "own s1 p ''score'' = Some (VNum sc)" by (simp add: f(3))
  show "invoke p ''increment'' [] s1 =
           Some (Normal VUndef (set_own p ''score'' (VNum (round_double (sc + 1))) s1))"
    using postfix_inc_own_num [OF lp(1) sc] by (simp add: invoke_def gi)
  assume "name = VStr nm"
  then have "get_prop (heap s1) p ''name'' = Some (VStr nm)"
    using lp(1) f(3) [of "''name''"] by (intro get_prop_own) (simp_all add: own_def)
  then show "invoke p ''sayName'' [] s1 = Some (Normal VUndef (console_log (''I am '' @ nm) s1))"
    by (simp add: invoke_def gs sayName_def)
qed

text \<open>
  Claim C4. The paid factory of solution 2 (lines 395-400) does not build a paid user:
  line 397 reads the identifier \<open>newUserpaid\<close>, which nothing binds, and the call ends
  there with a ReferenceError, whatever the arguments and the heap. The base user made at
  line 396 stays in the heap with \<open>userFunctions\<close> as its prototype and is not returned.
\<close>

theorem paidUserCreator_sol2_throws_ReferenceError:
  "paidUserCreator_sol2 userFunctions paidUserFunctions paidName paidScore accountBalance s =
     Some (Throw (ReferenceError ''newUserpaid is not defined'')
             (snd (userCreator_sol2 userFunctions paidName paidScore s)))"
  by (simp add: paidUserCreator_sol2_def paidUserCreator_scope_def split: prod.splits)

text \<open>Line 409, \<^verbatim>\<open>paidUserCreator('Alyssa', 8, 25)\<close>, after lines 377-408.\<close>

lemma paidUserCreator_sol2_Alyssa:
  "paidUserCreator_sol2 2 4 (VStr ''Alyssa'') (VNum 8) (VNum 25) sol2_sub_state =
     Some (Throw (ReferenceError ''newUserpaid is not defined'')
             (snd (userCreator_sol2 2 (VStr ''Alyssa'') (VNum 8) sol2_sub_state)))"
  by (simp add: paidUserCreator_sol2_def paidUserCreator_scope_def split: prod.splits)

section \<open>What a call can change\<close>

lemma postfix_inc_frame:
  assumes "postfix_inc b fld s = Some c" and "fld \<in> set data_fields"
  shows "length (heap (state_of c)) = length (heap s)"
    and "proto_of (state_of c) a = proto_of s a"
    and "m \<notin> set data_fields \<Longrightarrow> own (state_of c) a m = own s a m"
    and "console (state_of c) = console s"
  using postfix_inc_cases [OF assms(1)] assms(2) by auto

lemma sayName_frame:
  assumes "sayName this s = Some c"
  shows "heap (state_of c) = heap s"
  using assms
  by (auto simp: sayName_def console_log_def split: option.splits sum.splits)

lemma hasOwnProperty_frame:
  assumes "hasOwnProperty this k s = Some c"
  shows "state_of c = s"
  using assms
  by (auto simp: hasOwnProperty_def split: option.splits sum.splits if_splits)

lemma call_fn_frame:
  assumes "call_fn f this args s = Some c"
  shows "length (heap (state_of c)) = length (heap s)"
    and "proto_of (state_of c) a = proto_of s a"
    and "m \<notin> set data_fields \<Longrightarrow> own (state_of c) a m = own s a m"
proof -
  have "length (heap (state_of c)) = length (heap s) \<and> proto_of (state_of c) a = proto_of s a
    \<and> (m \<notin> set data_fields \<longrightarrow> own (state_of c) a m = own s a m)"
  proof (cases f)
    case (Fn_increment_closure b)
    then show ?thesis
      using assms postfix_inc_frame [of b "''score''" s c] by (simp add: data_fields_def)
  next
    case Fn_increment_this
    then show ?thesis
      using assms postfix_inc_frame [of this "''score''" s c] by (simp add: data_fields_def)
  next
    case (Fn_login msg)
    then show ?thesis
      using assms by (auto simp: console_log_def own_def proto_of_def)
  next
    case Fn_sayName
    then show ?thesis
      using assms sayName_frame [of this s c] by (simp add: own_def proto_of_def)
  next
    case Fn_increaseBalance
    then show ?thesis
      using assms postfix_inc_frame [of this "''accountBalance''" s c]
      by (simp add: data_fields_def)
  next
    case Fn_increment_add1_plain
    then show ?thesis
      using assms postfix_inc_frame [of globalThis "''score''" s c]
      by (simp add: data_fields_def increment_add1_plain_def add1_def)
  next
    case Fn_increment_add1_arrow
    then show ?thesis
      using assms postfix_inc_frame [of this "''score''" s c]
      by (simp add: data_fields_def increment_add1_arrow_def add1_def)
  next
    case Fn_num_increment
    then show ?thesis
      using assms postfix_inc_frame [of this "''num''" s c] by (simp add: data_fields_def)
  next
    case Fn_userCreator
    then show ?thesis
      using assms by (auto simp: userCreator_body_def data_fields_def)
  next
    case Fn_UserCreator_class
    then show ?thesis using assms by auto
  next
    case Fn_paidUserCreator
    then show ?thesis
      using assms by (auto simp: paidUserCreator_body_def userCreator_body_def data_fields_def)
  next
    case Fn_hasOwnProperty
    then show ?thesis
      using assms hasOwnProperty_frame [of this "arg args 0" s c] by simp
  qed
  then show "length (heap (state_of c)) = length (heap s)"
    and "proto_of (state_of c) a = proto_of s a"
    and "m \<notin> set data_fields \<Longrightarrow> own (state_of c) a m = own s a m"
    by simp_all
qed

lemma invoke_frame:
  assumes "invoke e n args s = Some c"
  shows "length (heap (state_of c)) = length (heap s)"
    and "proto_of (state_of c) a = proto_of s a"
    and "m \<notin> set data_fields \<Longrightarrow> own (state_of c) a m = own s a m"
proof -
  from assms consider f where "call_fn f e args s = Some c" | "state_of c = s"
    by (auto simp: invoke_def split: option.splits val.splits)
  then have "length (heap (state_of c)) = length (heap s) \<and> proto_of (state_of c) a = proto_of s a
    \<and> (m \<notin> set data_fields \<longrightarrow> own (state_of c) a m = own s a m)"
    using call_fn_frame by cases auto
  then show "length (heap (state_of c)) = length (heap s)"
    and "proto_of (state_of c) a = proto_of s a"
    and "m \<notin> set data_fields \<Longrightarrow> own (state_of c) a m = own s a m"
    by simp_all
qed

lemma invokeWith_frame:
  assumes "invokeWith b n r args s = Some c"
  shows "length (heap (state_of c)) = length (heap s)"
    and "proto_of (state_of c) a = proto_of s a"
    and "m \<notin> set data_fields \<Longrightarrow> own (state_of c) a m = own s a m"
proof -
  from assms consider f where "call_fn f r args s = Some c" | "state_of c = s"
    by (auto simp: invokeWith_def split: option.splits val.splits)
  then have "length (heap (state_of c)) = length (heap s) \<and> proto_of (state_of c) a = proto_of s a
    \<and> (m \<notin> set data_fields \<longrightarrow> own (state_of c) a m = own s a m)"
    using call_fn_frame by cases auto
  then show "length (heap (state_of c)) = length (heap s)"
    and "proto_of (state_of c) a = proto_of s a"
    and "m \<notin> set data_fields \<Longrightarrow> own (state_of c) a m = own s a m"
    by simp_all
qed









section \<open>Calling a shared function with another receiver\<close>

lemma receiver_field_call:
  "receiver_field f = Some fld \<Longrightarrow> call_fn f r args s = postfix_inc r fld s"
  by (cases f) (simp_all add: increment_add1_arrow_def add1_def)

lemma borrow_state_eq:
  "borrow_state =
     \<lparr>heap = [\<lparr>props = Map.empty, proto = Some 1\<rparr>,
              \<lparr>props = [''hasOwnProperty'' \<mapsto> VFun Fn_hasOwnProperty], proto = None\<rparr>,
              \<lparr>props = [''constructor'' \<mapsto> VFun Fn_userCreator, ''sayName'' \<mapsto> VFun Fn_sayName,
                        ''increment'' \<mapsto> VFun Fn_increment_this], proto = Some 1\<rparr>,
              \<lparr>props = [''increaseBalance'' \<mapsto> VFun Fn_increaseBalance], proto = Some 2\<rparr>,
              \<lparr>props = [''name'' \<mapsto> VStr ''Phil'', ''score'' \<mapsto> VNum 4,
                        ''increment'' \<mapsto> VFun (Fn_increment_closure 4)], proto = Some 1\<rparr>],
      console = []\<rparr>"
  by (simp add: borrow_state_def userCreator_sol1_def object_literal_def alloc_def
      sub_prototypes_state_eq set_own_def Object_prototype_def eval_nat_numeral)

lemma obj_state_eq:
  "obj_state =
     \<lparr>heap = [\<lparr>props = Map.empty, proto = Some 1\<rparr>,
              \<lparr>props = [''hasOwnProperty'' \<mapsto> VFun Fn_hasOwnProperty], proto = None\<rparr>,
              \<lparr>props = [''num'' \<mapsto> VNum 3, ''increment'' \<mapsto> VFun Fn_num_increment],
                proto = Some 1\<rparr>,
              \<lparr>props = [''num'' \<mapsto> VNum 10], proto = Some 1\<rparr>],
      console = []\<rparr>"
  by (simp add: obj_state_def obj_literal_def otherObj_literal_def object_literal_def alloc_def
      initial_state_def Object_prototype_def)

lemma sol1_users_state_eq:
  "sol1_users_state =
     \<lparr>heap = [\<lparr>props = Map.empty, proto = Some 1\<rparr>,
              \<lparr>props = [''hasOwnProperty'' \<mapsto> VFun Fn_hasOwnProperty], proto = None\<rparr>,
              \<lparr>props = [''name'' \<mapsto> VStr ''Phil'', ''score'' \<mapsto> VNum 4,
                        ''increment'' \<mapsto> VFun (Fn_increment_closure 2)], proto = Some 1\<rparr>,
              \<lparr>props = [''name'' \<mapsto> VStr ''Julia'', ''score'' \<mapsto> VNum 5,
                        ''increment'' \<mapsto> VFun (Fn_increment_closure 3)], proto = Some 1\<rparr>],
      console = []\<rparr>"
  by (simp add: sol1_users_state_def sol1_state_def userCreator_sol1_def object_literal_def
      alloc_def initial_state_def set_own_def Object_prototype_def eval_nat_numeral)

text \<open>
  Claim C7, amended. \<^verbatim>\<open>b.x.call(r)\<close> runs the function found under \<open>x\<close> on the chain of
  \<open>b\<close>. When that function applies \<open>++\<close> to a field through its own \<open>this\<close> (the
  \<open>increment\<close> of the shared stores and prototypes written \<^verbatim>\<open>this.score++\<close> or with the
  arrow function, \<open>increaseBalance\<close>, the \<open>increment\<close> of \<open>obj\<close>) and \<open>r\<close> owns a number in
  that field, the call completes, the field of \<open>r\<close> holds the result of \<open>++\<close> (the old
  value plus one from \<open>-2^53\<close> up to \<open>2^53 - 1\<close>) and every other object is as it was;
  nothing is asked of the prototype of \<open>r\<close>. When it is \<open>sayName\<close> and \<open>r\<close> owns a string
  name, the message carries the name of \<open>r\<close>. When it is an \<open>increment\<close> closed over an
  object \<open>u\<close> (solution 1), the call applies \<open>++\<close> to the score of \<open>u\<close> and leaves a
  receiver other than \<open>u\<close> as it was. Whatever the function, the call leaves the
  prototype reference of \<open>r\<close>, and of every other object, as it was.
\<close>

theorem invokeWith_overrides_the_receiver:
  "(get_prop (heap s) b x = Some (VFun f) \<and> receiver_field f = Some fld
      \<and> r < length (heap s) \<and> own s r fld = Some (VNum v) \<longrightarrow>
      invokeWith b x r args s =
        Some (Normal VUndef (set_own r fld (VNum (round_double (v + 1))) s))
      \<and> own (set_own r fld (VNum (round_double (v + 1))) s) r fld =
          Some (VNum (round_double (v + 1)))
      \<and> (a \<noteq> r \<longrightarrow> heap (set_own r fld (VNum (round_double (v + 1))) s) ! a = heap s ! a)
      \<and> (- (2 ^ 53) \<le> v \<and> v < 2 ^ 53 \<longrightarrow> round_double (v + 1) = v + 1))
   \<and> (get_prop (heap s) b x = Some (VFun Fn_sayName)
        \<and> r < length (heap s) \<and> own s r ''name'' = Some (VStr nm) \<longrightarrow>
        invokeWith b x r args s = Some (Normal VUndef (console_log (''I am '' @ nm) s)))
   \<and> (get_prop (heap s) b x = Some (VFun (Fn_increment_closure u))
        \<and> u < length (heap s) \<and> own s u ''score'' = Some (VNum v) \<longrightarrow>
        invokeWith b x r args s =
          Some (Normal VUndef (set_own u ''score'' (VNum (round_double (v + 1))) s))
        \<and> (r \<noteq> u \<longrightarrow>
             heap (set_own u ''score'' (VNum (round_double (v + 1))) s) ! r = heap s ! r))
   \<and> (invokeWith b x r args s = Some c \<longrightarrow>
        proto_of (state_of c) r = proto_of s r \<and> proto_of (state_of c) a = proto_of s a)"
proof (intro conjI impI)
  assume h: "get_prop (heap s) b x = Some (VFun f) \<and> receiver_field f = Some fld
      \<and> r < length (heap s) \<and> own s r fld = Some (VNum v)"
  then show "invokeWith b x r args s =
        Some (Normal VUndef (set_own r fld (VNum (round_double (v + 1))) s))"
    using receiver_field_call [of f fld r args s] postfix_inc_own_num [of r s fld v]
    by (simp add: invokeWith_def)
  show "own (set_own r fld (VNum (round_double (v + 1))) s) r fld =
          Some (VNum (round_double (v + 1)))"
    using h by simp
  show "a \<noteq> r \<Longrightarrow> heap (set_own r fld (VNum (round_double (v + 1))) s) ! a = heap s ! a"
    by (rule set_own_other)
next
  assume "- (2 ^ 53) \<le> v \<and> v < 2 ^ 53"
  then show "round_double (v + 1) = v + 1"
    by (intro round_double_safe) auto
next
  assume h: "get_prop (heap s) b x = Some (VFun Fn_sayName)
        \<and> r < length (heap s) \<and> own s r ''name'' = Some (VStr nm)"
  then have "get_prop (heap s) r ''name'' = Some (VStr nm)"
    by (intro get_prop_own) (simp_all add: own_def)
  then show "invokeWith b x r args s = Some (Normal VUndef (console_log (''I am '' @ nm) s))"
    using h by (simp add: invokeWith_def sayName_def)
next
  assume h: "get_prop (heap s) b x = Some (VFun (Fn_increment_closure u))
        \<and> u < length (heap s) \<and> own s u ''score'' = Some (VNum v)"
  then show "invokeWith b x r args s =
          Some (Normal VUndef (set_own u ''score'' (VNum (round_double (v + 1))) s))"
    using postfix_inc_own_num [of u s "''score''" v] by (simp add: invokeWith_def)
  show "r \<noteq> u \<Longrightarrow>
        heap (set_own u ''score'' (VNum (round_double (v + 1))) s) ! r = heap s ! r"
    by (rule set_own_other)
next
  assume c: "invokeWith b x r args s = Some c"
  show "proto_of (state_of c) r = proto_of s r" by (rule invokeWith_frame(2) [OF c])
  show "proto_of (state_of c) a = proto_of s a" by (rule invokeWith_frame(2) [OF c])
qed

theorem invokeWith_overrides_the_receiver_witness:
  "get_prop (heap borrow_state) 2 ''increment'' = Some (VFun Fn_increment_this)
   \<and> receiver_field Fn_increment_this = Some ''score''
   \<and> 4 < length (heap borrow_state)
   \<and> own borrow_state 4 ''score'' = Some (VNum 4)
   \<and> proto_of borrow_state 4 = Some 1
   \<and> invokeWith 2 ''increment'' 4 [] borrow_state =
       Some (Normal VUndef (set_own 4 ''score'' (VNum 5) borrow_state))
   \<and> own (set_own 4 ''score'' (VNum 5) borrow_state) 4 ''score'' = Some (VNum 5)
   \<and> heap (set_own 4 ''score'' (VNum 5) borrow_state) ! 2 = heap borrow_state ! 2
   \<and> proto_of (set_own 4 ''score'' (VNum 5) borrow_state) 4 = Some 1
   \<and> get_prop (heap borrow_state) 2 ''sayName'' = Some (VFun Fn_sayName)
   \<and> own borrow_state 4 ''name'' = Some (VStr ''Phil'')
   \<and> invokeWith 2 ''sayName'' 4 [] borrow_state =
       Some (Normal VUndef (console_log ''I am Phil'' borrow_state))
   \<and> get_prop (heap sol1_users_state) 2 ''increment'' = Some (VFun (Fn_increment_closure 2))
   \<and> 2 < length (heap sol1_users_state)
   \<and> own sol1_users_state 2 ''score'' = Some (VNum 4)
   \<and> invokeWith 2 ''increment'' 3 [] sol1_users_state =
       Some (Normal VUndef (set_own 2 ''score'' (VNum 5) sol1_users_state))
   \<and> heap (set_own 2 ''score'' (VNum 5) sol1_users_state) ! 3 = heap sol1_users_state ! 3"
proof -
  have g: "get_prop (heap borrow_state) 2 ''increment'' = Some (VFun Fn_increment_this)"
    "get_prop (heap borrow_state) 2 ''sayName'' = Some (VFun Fn_sayName)"
    by (simp_all add: borrow_state_eq get_prop.simps)
  have o: "4 < length (heap borrow_state)" "own borrow_state 4 ''score'' = Some (VNum 4)"
    "proto_of borrow_state 4 = Some 1" "own borrow_state 4 ''name'' = Some (VStr ''Phil'')"
    by (simp_all add: borrow_state_eq own_def proto_of_def)
  have k: "get_prop (heap sol1_users_state) 2 ''increment'' = Some (VFun (Fn_increment_closure 2))"
    by (simp add: sol1_users_state_eq get_prop.simps)
  have q: "2 < length (heap sol1_users_state)" "own sol1_users_state 2 ''score'' = Some (VNum 4)"
    by (simp_all add: sol1_users_state_eq own_def)
  have A: "invokeWith 2 ''increment'' 4 [] borrow_state =
       Some (Normal VUndef (set_own 4 ''score'' (VNum 5) borrow_state))
     \<and> own (set_own 4 ''score'' (VNum 5) borrow_state) 4 ''score'' = Some (VNum 5)
     \<and> heap (set_own 4 ''score'' (VNum 5) borrow_state) ! 2 = heap borrow_state ! 2
     \<and> proto_of (set_own 4 ''score'' (VNum 5) borrow_state) 4 = Some 1"
    using invokeWith_overrides_the_receiver
      [where s = borrow_state and b = 2 and x = "''increment''" and f = Fn_increment_this
        and r = 4 and args = "[]" and fld = "''score''" and v = 4 and a = 2
        and c = "Normal VUndef (set_own 4 ''score'' (VNum 5) borrow_state)"]
      g o
    by (simp add: round_double_safe)
  have B: "invokeWith 2 ''sayName'' 4 [] borrow_state =
       Some (Normal VUndef (console_log ''I am Phil'' borrow_state))"
    using invokeWith_overrides_the_receiver
      [where s = borrow_state and b = 2 and x = "''sayName''" and r = 4 and args = "[]"
        and nm = "''Phil''"]
      g o
    by simp
  have C: "invokeWith 2 ''increment'' 3 [] sol1_users_state =
       Some (Normal VUndef (set_own 2 ''score'' (VNum 5) sol1_users_state))
     \<and> heap (set_own 2 ''score'' (VNum 5) sol1_users_state) ! 3 = heap sol1_users_state ! 3"
    using invokeWith_overrides_the_receiver
      [where s = sol1_users_state and b = 2 and x = "''increment''" and u = 2 and r = 3
        and args = "[]" and v = 4]
      k q
    by (simp add: round_double_safe)
  from A B C g o k q show ?thesis by simp
qed

text \<open>
  The claim as stated fails for a function closed over its object. After lines 88 and 89,
  \<^verbatim>\<open>user1.increment.call(user2)\<close> completes, the score of the receiver \<open>user2\<close> is still 5,
  the object of \<open>user2\<close> is as it was, and it is the score of \<open>user1\<close> that went from 4 to
  5: the result is not what \<^verbatim>\<open>this.score++\<close> does with \<open>user2\<close> as receiver.
\<close>

theorem call_on_closure_ignores_receiver:
  "get_prop (heap sol1_users_state) 2 ''increment'' = Some (VFun (Fn_increment_closure 2))
   \<and> own sol1_users_state 2 ''score'' = Some (VNum 4)
   \<and> own sol1_users_state 3 ''score'' = Some (VNum 5)
   \<and> invokeWith 2 ''increment'' 3 [] sol1_users_state =
       Some (Normal VUndef (set_own 2 ''score'' (VNum 5) sol1_users_state))
   \<and> own (set_own 2 ''score'' (VNum 5) sol1_users_state) 3 ''score'' = Some (VNum 5)
   \<and> heap (set_own 2 ''score'' (VNum 5) sol1_users_state) ! 3 = heap sol1_users_state ! 3
   \<and> own (set_own 2 ''score'' (VNum 5) sol1_users_state) 2 ''score'' = Some (VNum 5)
   \<and> postfix_inc 3 ''score'' sol1_users_state =
       Some (Normal VUndef (set_own 3 ''score'' (VNum 6) sol1_users_state))
   \<and> invokeWith 2 ''increment'' 3 [] sol1_users_state \<noteq>
       postfix_inc 3 ''score'' sol1_users_state"
proof -
  let ?S = "sol1_users_state"
  have k: "get_prop (heap ?S) 2 ''increment'' = Some (VFun (Fn_increment_closure 2))"
    by (simp add: sol1_users_state_eq get_prop.simps)
  have l: "2 < length (heap ?S)" "3 < length (heap ?S)"
    by (simp_all add: sol1_users_state_eq)
  have o: "own ?S 2 ''score'' = Some (VNum 4)" "own ?S 3 ''score'' = Some (VNum 5)"
    by (simp_all add: sol1_users_state_eq own_def)
  have i: "invokeWith 2 ''increment'' 3 [] ?S =
       Some (Normal VUndef (set_own 2 ''score'' (VNum 5) ?S))"
    using postfix_inc_own_num [OF l(1) o(1)] by (simp add: invokeWith_def k round_double_safe)
  have p: "postfix_inc 3 ''score'' ?S = Some (Normal VUndef (set_own 3 ''score'' (VNum 6) ?S))"
    using postfix_inc_own_num [OF l(2) o(2)] by (simp add: round_double_safe)
  have d: "own (set_own 2 ''score'' (VNum 5) ?S) 3 ''score'' = Some (VNum 5)"
    using o(2) by simp
  have w: "own (set_own 3 ''score'' (VNum 6) ?S) 3 ''score'' = Some (VNum 6)"
    using l(2) by simp
  have b: "own (set_own 2 ''score'' (VNum 5) ?S) 2 ''score'' = Some (VNum 5)"
    using l(1) by simp
  have h: "heap (set_own 2 ''score'' (VNum 5) ?S) ! 3 = heap ?S ! 3"
    by (simp add: set_own_other)
  have ne: "set_own 2 ''score'' (VNum 5) ?S \<noteq> set_own 3 ''score'' (VNum 6) ?S"
  proof
    assume eq: "set_own 2 ''score'' (VNum 5) ?S = set_own 3 ''score'' (VNum 6) ?S"
    have "own (set_own 2 ''score'' (VNum 5) ?S) 3 ''score'' =
          own (set_own 3 ''score'' (VNum 6) ?S) 3 ''score''"
      by (simp only: eq)
    then have "Some (VNum 5) = Some (VNum 6)" unfolding d w .
    then show False by simp
  qed
  from k o i p d b h ne show ?thesis by simp
qed

text \<open>Lines 426 and 427, with the values their comments give: \<open>obj.num\<close> becomes 4, then
  \<open>otherObj.num\<close> becomes 11.\<close>

lemma obj_increment_call_otherObj:
  "invoke 2 ''increment'' [] obj_state =
     Some (Normal VUndef (set_own 2 ''num'' (VNum 4) obj_state))
   \<and> invokeWith 2 ''increment'' 3 [] (set_own 2 ''num'' (VNum 4) obj_state) =
     Some (Normal VUndef (set_own 3 ''num'' (VNum 11) (set_own 2 ''num'' (VNum 4) obj_state)))"
proof -
  let ?A = "set_own 2 ''num'' (VNum 4) obj_state"
  have g: "get_prop (heap obj_state) 2 ''increment'' = Some (VFun Fn_num_increment)"
    "get_prop (heap ?A) 2 ''increment'' = Some (VFun Fn_num_increment)"
    by (simp_all add: obj_state_eq set_own_def get_prop.simps)
  have l: "2 < length (heap obj_state)" "3 < length (heap ?A)"
    by (simp_all add: obj_state_eq)
  have o: "own obj_state 2 ''num'' = Some (VNum 3)" "own ?A 3 ''num'' = Some (VNum 10)"
    by (simp_all add: obj_state_eq own_def set_own_def)
  show ?thesis
    using postfix_inc_own_num [OF l(1) o(1)] postfix_inc_own_num [OF l(2) o(2)]
    by (simp add: invoke_def invokeWith_def g round_double_safe)
qed

section \<open>Shared stores\<close>






section \<open>Well-formed heaps and the resolution walk\<close>

lemma wf_heap_closed:
  "wf_heap h \<Longrightarrow> a < length h \<Longrightarrow> proto (h ! a) = Some p \<Longrightarrow> p < length h"
  by (auto simp: wf_heap_def)

lemma chain_ends_by_rank:
  assumes r: "\<forall>a < length h. \<forall>p. proto (h ! a) = Some p \<longrightarrow> p < length h \<and> rank p < rank a"
  shows "a < length h \<Longrightarrow> rank a \<le> k \<Longrightarrow> nth_proto h (Suc k) a = None"
proof (induction k arbitrary: a)
  case 0
  then have "proto (h ! a) = None"
    using r by (cases "proto (h ! a)") auto
  then show ?case using 0 by simp
next
  case (Suc k)
  show ?case
  proof (cases "proto (h ! a)")
    case None
    then show ?thesis using Suc.prems by simp
  next
    case (Some p)
    then have "p < length h" "rank p \<le> k" using r Suc.prems by force+
    then have "nth_proto h (Suc k) p = None" by (rule Suc.IH)
    then show ?thesis using Some Suc.prems(1) by simp
  qed
qed

lemma wf_heap_chain_ends:
  assumes "wf_heap h" and "a < length h"
  shows "\<exists>k. nth_proto h k a = None"
proof -
  from assms(1) obtain rank :: "addr \<Rightarrow> nat" where
    "\<forall>a < length h. \<forall>p. proto (h ! a) = Some p \<longrightarrow> p < length h \<and> rank p < rank a"
    by (auto simp: wf_heap_def)
  then have "nth_proto h (Suc (rank a)) a = None"
    using assms(2) by (intro chain_ends_by_rank) auto
  then show ?thesis ..
qed

lemma get_prop_resolve_spec:
  assumes "wf_heap h"
  shows "e < length h \<Longrightarrow> nth_proto h k e = None \<Longrightarrow> get_prop h e n = Some (resolve_spec h k e n)"
proof (induction k arbitrary: e)
  case 0
  then show ?case by simp
next
  case (Suc k)
  show ?case
  proof (cases "props (h ! e) n")
    case (Some v)
    then show ?thesis
      using Suc.prems(1) by (simp add: get_prop_own resolve_spec_def)
  next
    case None
    note own = this
    show ?thesis
    proof (cases "proto (h ! e)")
      case None
      then show ?thesis
        using Suc.prems(1) own by (simp add: get_prop_end resolve_spec_def)
    next
      case (Some p)
      have p: "p < length h" using wf_heap_closed [OF assms Suc.prems(1) Some] .
      have "nth_proto h k p = None" using Suc.prems Some by simp
      then have "get_prop h p n = Some (resolve_spec h k p n)" using p by (intro Suc.IH)
      moreover have "get_prop h e n = get_prop h p n"
        using Suc.prems(1) own Some by (rule get_prop_proto)
      moreover have "resolve_spec h (Suc k) e n = resolve_spec h k p n"
        using Suc.prems(1) own Some by (simp add: resolve_spec_def)
      ultimately show ?thesis by simp
    qed
  qed
qed

lemma get_prop_total:
  assumes "wf_heap h" and "a < length h"
  shows "\<exists>v. get_prop h a n = Some v"
  using wf_heap_chain_ends [OF assms] get_prop_resolve_spec [OF assms] by blast

lemma get_prop_first_level:
  assumes "nth_proto h j e = Some a" and "props (h ! a) n = Some w"
    and "\<forall>i<j. \<forall>b. nth_proto h i e = Some b \<longrightarrow> props (h ! b) n = None"
  shows "get_prop h e n = Some w"
  using assms
proof (induction j arbitrary: e)
  case 0
  then have "e < length h" "a = e" by (auto split: if_splits)
  then show ?case using 0(2) by (simp add: get_prop_own)
next
  case (Suc j)
  from Suc.prems(1) obtain p where e: "e < length h" and p: "proto (h ! e) = Some p"
    and a: "nth_proto h j p = Some a"
    by (auto split: if_splits option.splits)
  have "nth_proto h 0 e = Some e" using e by simp
  then have own: "props (h ! e) n = None" using Suc.prems(3) by blast
  have "\<forall>i<j. \<forall>b. nth_proto h i p = Some b \<longrightarrow> props (h ! b) n = None"
  proof (intro allI impI)
    fix i b
    assume "i < j" and "nth_proto h i p = Some b"
    then have "Suc i < Suc j" "nth_proto h (Suc i) e = Some b" using e p by simp_all
    then show "props (h ! b) n = None" using Suc.prems(3) by blast
  qed
  then have "get_prop h p n = Some w" using a Suc.prems(2) by (intro Suc.IH)
  then show ?case using get_prop_proto [OF e own p] by simp
qed

text \<open>
  Claim C1. In a well-formed heap the chain of an entity \<open>e\<close> ends, and for every number
  of levels \<open>k\<close> that covers the whole chain the property read \<open>e.n\<close> returns what the
  resolution order of the specification gives: the entry of the first level, starting
  with the own fields of \<open>e\<close> and going up the single-parent chain, that holds \<open>n\<close> (and
  \<open>undefined\<close> when no level does). On any heap, when level \<open>j\<close> of the chain of \<open>e\<close> is
  the object \<open>a\<close>, \<open>a\<close> holds \<open>w\<close> under \<open>n\<close> and no level before \<open>j\<close> holds \<open>n\<close>, the
  read returns \<open>w\<close>. When \<open>w\<close> is a function that applies \<open>++\<close> to a field through \<open>this\<close>
  and \<open>e\<close> owns a number in that field, the method call completes in the state that
  differs from the one before the call in that field of \<open>e\<close> only: the level \<open>a\<close> that
  supplied the function, when it is not \<open>e\<close> itself, is as it was. When \<open>w\<close> is \<open>sayName\<close>
  and \<open>e\<close> owns a string name, the message carries the name of \<open>e\<close> and the heap is as it
  was.
\<close>

theorem resolution_order:
  "(wf_heap (heap s) \<and> e < length (heap s) \<longrightarrow>
      (\<exists>k. nth_proto (heap s) k e = None)
      \<and> (nth_proto (heap s) k e = None \<longrightarrow>
           get_prop (heap s) e n = Some (resolve_spec (heap s) k e n)))
   \<and> (nth_proto (heap s) j e = Some a \<and> own s a n = Some w
        \<and> (\<forall>i<j. \<forall>b. nth_proto (heap s) i e = Some b \<longrightarrow> own s b n = None) \<longrightarrow>
        get_prop (heap s) e n = Some w
        \<and> (w = VFun f \<and> receiver_field f = Some fld \<and> own s e fld = Some (VNum v) \<longrightarrow>
             invoke e n args s =
               Some (Normal VUndef (set_own e fld (VNum (round_double (v + 1))) s))
             \<and> (a \<noteq> e \<longrightarrow>
                  heap (set_own e fld (VNum (round_double (v + 1))) s) ! a = heap s ! a))
        \<and> (w = VFun Fn_sayName \<and> own s e ''name'' = Some (VStr nm) \<longrightarrow>
             invoke e n args s = Some (Normal VUndef (console_log (''I am '' @ nm) s))))"
proof (intro conjI impI)
  assume "wf_heap (heap s) \<and> e < length (heap s)"
  then show "\<exists>k. nth_proto (heap s) k e = None"
    using wf_heap_chain_ends [of "heap s" e] by simp
next
  assume "wf_heap (heap s) \<and> e < length (heap s)" and "nth_proto (heap s) k e = None"
  then show "get_prop (heap s) e n = Some (resolve_spec (heap s) k e n)"
    using get_prop_resolve_spec [of "heap s" e k n] by simp
next
  assume L: "nth_proto (heap s) j e = Some a \<and> own s a n = Some w
        \<and> (\<forall>i<j. \<forall>b. nth_proto (heap s) i e = Some b \<longrightarrow> own s b n = None)"
  then show g: "get_prop (heap s) e n = Some w"
    using get_prop_first_level [of "heap s" j e a n w] by (simp add: own_def)
  have e: "e < length (heap s)"
    using L by (cases j) (auto split: if_splits)
  {
    assume h: "w = VFun f \<and> receiver_field f = Some fld \<and> own s e fld = Some (VNum v)"
    then show "invoke e n args s =
               Some (Normal VUndef (set_own e fld (VNum (round_double (v + 1))) s))"
      using g receiver_field_call [of f fld e args s] postfix_inc_own_num [OF e, of fld v]
      by (simp add: invoke_def)
  }
  {
    assume h: "w = VFun Fn_sayName \<and> own s e ''name'' = Some (VStr nm)"
    then have "get_prop (heap s) e ''name'' = Some (VStr nm)"
      using e by (intro get_prop_own) (simp_all add: own_def)
    then show "invoke e n args s = Some (Normal VUndef (console_log (''I am '' @ nm) s))"
      using g h by (simp add: invoke_def sayName_def)
  }
next
  assume "a \<noteq> e"
  then show "heap (set_own e fld (VNum (round_double (v + 1))) s) ! a = heap s ! a"
    by (rule set_own_other)
qed

lemma wf_heap_sub_state: "wf_heap (heap sub_state)"
  unfolding wf_heap_def
proof (intro exI allI impI)
  fix a p
  assume "a < length (heap sub_state)" and "proto (heap sub_state ! a) = Some p"
  then show "p < length (heap sub_state) \<and>
    (\<lambda>x. if x = 1 then 0 else if x = 2 then 1 else if x = 3 then 2 else (3::nat)) p
    < (\<lambda>x. if x = 1 then 0 else if x = 2 then 1 else if x = 3 then 2 else (3::nat)) a"
    by (auto simp: sub_state_eq nth_Cons' less_Suc_eq eval_nat_numeral split: if_splits)
qed

lemma sub_state_chain:
  "nth_proto (heap sub_state) 4 6 = None"
  "resolve_spec (heap sub_state) 4 6 ''increment'' = VFun Fn_increment_this"
  "chain_list (heap sub_state) 4 6 = [6, 3, 2, 1]"
  by (simp_all add: sub_state_eq resolve_spec_def eval_nat_numeral)

lemma sub_state_levels:
  "nth_proto (heap sub_state) 2 6 = Some 2"
  "own sub_state 2 ''increment'' = Some (VFun Fn_increment_this)"
  "own sub_state 2 ''sayName'' = Some (VFun Fn_sayName)"
  "\<forall>i<2. \<forall>b. nth_proto (heap sub_state) i 6 = Some b \<longrightarrow> own sub_state b ''increment'' = None"
  "\<forall>i<2. \<forall>b. nth_proto (heap sub_state) i 6 = Some b \<longrightarrow> own sub_state b ''sayName'' = None"
  "own sub_state 6 ''score'' = Some (VNum 8)"
  "own sub_state 6 ''name'' = Some (VStr ''Alyssa'')"
  by (auto simp: sub_state_eq own_def eval_nat_numeral less_Suc_eq)

theorem resolution_order_witness:
  "wf_heap (heap sub_state) \<and> 6 < length (heap sub_state)
   \<and> nth_proto (heap sub_state) 4 6 = None
   \<and> chain_list (heap sub_state) 4 6 = [6, 3, 2, 1]
   \<and> get_prop (heap sub_state) 6 ''increment'' = Some (VFun Fn_increment_this)
   \<and> nth_proto (heap sub_state) 2 6 = Some 2
   \<and> own sub_state 2 ''increment'' = Some (VFun Fn_increment_this)
   \<and> nth_proto (heap sub_state) 0 6 = Some 6 \<and> own sub_state 6 ''increment'' = None
   \<and> nth_proto (heap sub_state) 1 6 = Some 3 \<and> own sub_state 3 ''increment'' = None
   \<and> invoke 6 ''increment'' [] sub_state =
       Some (Normal VUndef (set_own 6 ''score'' (VNum 9) sub_state))
   \<and> heap (set_own 6 ''score'' (VNum 9) sub_state) ! 2 = heap sub_state ! 2
   \<and> invoke 6 ''sayName'' [] sub_state =
       Some (Normal VUndef (console_log ''I am Alyssa'' sub_state))"
proof -
  have l: "6 < length (heap sub_state)" by (simp add: sub_state_eq)
  have A: "get_prop (heap sub_state) 6 ''increment'' = Some (VFun Fn_increment_this)"
    using resolution_order [where s = sub_state and e = 6 and k = 4 and n = "''increment''"]
      wf_heap_sub_state l sub_state_chain
    by simp
  have B: "invoke 6 ''increment'' [] sub_state =
       Some (Normal VUndef (set_own 6 ''score'' (VNum 9) sub_state))
     \<and> heap (set_own 6 ''score'' (VNum 9) sub_state) ! 2 = heap sub_state ! 2"
    using resolution_order
      [where s = sub_state and e = 6 and j = 2 and a = 2 and n = "''increment''"
        and w = "VFun Fn_increment_this" and f = Fn_increment_this and fld = "''score''"
        and v = 8 and args = "[]"]
      sub_state_levels
    by (simp add: round_double_safe)
  have C: "invoke 6 ''sayName'' [] sub_state =
       Some (Normal VUndef (console_log ''I am Alyssa'' sub_state))"
    using resolution_order
      [where s = sub_state and e = 6 and j = 2 and a = 2 and n = "''sayName''"
        and w = "VFun Fn_sayName" and nm = "''Alyssa''" and args = "[]"]
      sub_state_levels
    by simp
  have D: "nth_proto (heap sub_state) 0 6 = Some 6" "own sub_state 6 ''increment'' = None"
    "nth_proto (heap sub_state) 1 6 = Some 3" "own sub_state 3 ''increment'' = None"
    by (simp_all add: sub_state_eq own_def)
  from A B C D wf_heap_sub_state l sub_state_chain sub_state_levels(1,2) show ?thesis
    by simp
qed

section \<open>Calling a name that no level defines\<close>

text \<open>
  Claim C5. In a well-formed heap, when \<open>k\<close> levels cover the whole chain of an entity
  \<open>e\<close> (a base user or a paid user alike) and none of them holds the name \<open>n\<close>, the method
  call \<open>e.n()\<close> returns to its caller with a TypeError, the error JavaScript raises for
  a missing operation, and the state is the one before the call.
\<close>

theorem missing_operation_throws:
  "wf_heap (heap s) \<and> e < length (heap s) \<and> nth_proto (heap s) k e = None
     \<and> first_defining (heap s) (chain_list (heap s) k e) n = None \<longrightarrow>
   invoke e n args s = Some (Throw (TypeError (n @ '' is not a function'')) s)"
proof
  assume a: "wf_heap (heap s) \<and> e < length (heap s) \<and> nth_proto (heap s) k e = None
     \<and> first_defining (heap s) (chain_list (heap s) k e) n = None"
  then have "get_prop (heap s) e n = Some (resolve_spec (heap s) k e n)"
    by (intro get_prop_resolve_spec) simp_all
  moreover have "resolve_spec (heap s) k e n = VUndef"
    using a by (simp add: resolve_spec_def)
  ultimately show "invoke e n args s = Some (Throw (TypeError (n @ '' is not a function'')) s)"
    by (simp add: invoke_def)
qed

theorem missing_operation_throws_witness:
  "wf_heap (heap sub_state)
   \<and> 4 < length (heap sub_state) \<and> nth_proto (heap sub_state) 4 4 = None
   \<and> first_defining (heap sub_state) (chain_list (heap sub_state) 4 4) ''noSuchOp'' = None
   \<and> invoke 4 ''noSuchOp'' [] sub_state =
       Some (Throw (TypeError ''noSuchOp is not a function'') sub_state)
   \<and> 6 < length (heap sub_state) \<and> nth_proto (heap sub_state) 4 6 = None
   \<and> first_defining (heap sub_state) (chain_list (heap sub_state) 4 6) ''noSuchOp'' = None
   \<and> invoke 6 ''noSuchOp'' [] sub_state =
       Some (Throw (TypeError ''noSuchOp is not a function'') sub_state)"
proof -
  have b: "4 < length (heap sub_state)" "nth_proto (heap sub_state) 4 4 = None"
    "first_defining (heap sub_state) (chain_list (heap sub_state) 4 4) ''noSuchOp'' = None"
    by (simp_all add: sub_state_eq eval_nat_numeral)
  have p: "6 < length (heap sub_state)" "nth_proto (heap sub_state) 4 6 = None"
    "first_defining (heap sub_state) (chain_list (heap sub_state) 4 6) ''noSuchOp'' = None"
    by (simp_all add: sub_state_eq eval_nat_numeral)
  show ?thesis
    using missing_operation_throws [of sub_state 4 4 "''noSuchOp''" "[]"]
      missing_operation_throws [of sub_state 6 4 "''noSuchOp''" "[]"]
      wf_heap_sub_state b p
    by simp
qed

section \<open>Relinking a prototype\<close>

lemma nth_proto_step:
  assumes "p < length h"
  shows "(\<exists>k. nth_proto h k p = Some ob) \<longleftrightarrow>
         p = ob \<or> (\<exists>q. proto (h ! p) = Some q \<and> (\<exists>k. nth_proto h k q = Some ob))"
proof
  assume "\<exists>k. nth_proto h k p = Some ob"
  then obtain k where k: "nth_proto h k p = Some ob" ..
  show "p = ob \<or> (\<exists>q. proto (h ! p) = Some q \<and> (\<exists>k. nth_proto h k q = Some ob))"
  proof (cases k)
    case 0
    then show ?thesis using k assms by simp
  next
    case (Suc j)
    then show ?thesis using k assms by (auto split: option.splits)
  qed
next
  assume "p = ob \<or> (\<exists>q. proto (h ! p) = Some q \<and> (\<exists>k. nth_proto h k q = Some ob))"
  then show "\<exists>k. nth_proto h k p = Some ob"
  proof
    assume "p = ob"
    then have "nth_proto h 0 p = Some ob" using assms by simp
    then show ?thesis ..
  next
    assume "\<exists>q. proto (h ! p) = Some q \<and> (\<exists>k. nth_proto h k q = Some ob)"
    then obtain q k where "proto (h ! p) = Some q" "nth_proto h k q = Some ob" by blast
    then have "nth_proto h (Suc k) p = Some ob" using assms by simp
    then show ?thesis ..
  qed
qed

lemma proto_chain_reaches_by_rank:
  fixes rank :: "addr \<Rightarrow> nat"
  assumes r: "\<forall>a < length h. \<forall>p. proto (h ! a) = Some p \<longrightarrow> p < length h \<and> rank p < rank a"
  shows "p < length h \<Longrightarrow>
         proto_chain_reaches h (Some p) ob = Some (\<exists>k. nth_proto h k p = Some ob)"
proof (induction "rank p" arbitrary: p rule: less_induct)
  case less
  show ?case
  proof (cases "p = ob")
    case True
    then have "proto_chain_reaches h (Some p) ob = Some True"
      by (subst proto_chain_reaches.simps) simp
    then show ?thesis using True nth_proto_step [OF less.prems, of ob] by simp
  next
    case False
    have u: "proto_chain_reaches h (Some p) ob = proto_chain_reaches h (proto (h ! p)) ob"
      using False less.prems by (subst proto_chain_reaches.simps) simp
    show ?thesis
    proof (cases "proto (h ! p)")
      case None
      then have "proto_chain_reaches h (Some p) ob = Some False"
        using u by (subst (asm) (2) proto_chain_reaches.simps) simp
      then show ?thesis using False None nth_proto_step [OF less.prems, of ob] by simp
    next
      case (Some q)
      then have q: "q < length h" "rank q < rank p" using r less.prems by auto
      have "proto_chain_reaches h (Some q) ob = Some (\<exists>k. nth_proto h k q = Some ob)"
        using q by (intro less.hyps)
      then show ?thesis using u False Some nth_proto_step [OF less.prems, of ob] by simp
    qed
  qed
qed

lemma wf_heap_set_proto:
  assumes wf: "wf_heap h" and ob: "ob < length h"
    and v: "\<forall>q. v = Some q \<longrightarrow> q < length h \<and> (\<forall>k. nth_proto h k q \<noteq> Some ob)"
  shows "wf_heap (h[ob := (h ! ob)\<lparr>proto := v\<rparr>])"
proof -
  let ?h' = "h[ob := (h ! ob)\<lparr>proto := v\<rparr>]"
  from wf obtain rank :: "addr \<Rightarrow> nat" where
    r: "\<forall>a < length h. \<forall>p. proto (h ! a) = Some p \<longrightarrow> p < length h \<and> rank p < rank a"
    by (auto simp: wf_heap_def)
  define up where "up x \<longleftrightarrow> (\<exists>k. nth_proto h k x = Some ob)" for x
  define bump where "bump = (case v of None \<Rightarrow> 0 | Some p \<Rightarrow> Suc (rank p))"
  define rank' where "rank' x = rank x + (if up x then bump else 0)" for x
  have "\<forall>a < length ?h'. \<forall>q. proto (?h' ! a) = Some q \<longrightarrow> q < length ?h' \<and> rank' q < rank' a"
  proof (intro allI impI)
    fix a q
    assume a: "a < length ?h'" and e: "proto (?h' ! a) = Some q"
    show "q < length ?h' \<and> rank' q < rank' a"
    proof (cases "a = ob")
      case True
      then have vq: "v = Some q" using e ob by simp
      then have q: "q < length h" "\<not> up q" using v by (auto simp: up_def)
      have "up ob" using nth_proto_step [OF ob, of ob] by (simp add: up_def)
      then show ?thesis using True q vq by (simp add: rank'_def bump_def)
    next
      case False
      then have e': "proto (h ! a) = Some q" using e by simp
      have al: "a < length h" using a by simp
      then have q: "q < length h" "rank q < rank a" using r e' by auto
      have "up a \<longleftrightarrow> up q"
        using nth_proto_step [OF al, of ob] False e' by (simp add: up_def)
      then show ?thesis using q by (simp add: rank'_def)
    qed
  qed
  then show ?thesis unfolding wf_heap_def by blast
qed

lemma Object_setPrototypeOf_wf:
  assumes wf: "wf_heap (heap s)" and ob: "ob < length (heap s)" and p: "p < length (heap s)"
  shows "\<exists>c. Object_setPrototypeOf ob (Some p) s = Some c"
    and "nth_proto (heap s) k p = Some ob \<Longrightarrow>
         Object_setPrototypeOf ob (Some p) s =
           Some (Throw (TypeError ''Cyclic __proto__ value'') s)"
    and "Object_setPrototypeOf ob (Some p) s = Some (Normal w s') \<Longrightarrow> wf_heap (heap s')"
proof -
  from wf obtain rank :: "addr \<Rightarrow> nat" where
    r: "\<forall>a < length (heap s). \<forall>p. proto (heap s ! a) = Some p \<longrightarrow>
          p < length (heap s) \<and> rank p < rank a"
    by (auto simp: wf_heap_def)
  note reach = proto_chain_reaches_by_rank [OF r p, of ob]
  show "\<exists>c. Object_setPrototypeOf ob (Some p) s = Some c"
    using ob by (simp add: Object_setPrototypeOf_def reach split: bool.splits)
  have le: "nth_proto (heap s) j x = Some y \<Longrightarrow> rank y \<le> rank x" for j x y
  proof (induction j arbitrary: x)
    case 0
    then show ?case by (simp split: if_splits)
  next
    case (Suc j)
    then obtain q where x: "x < length (heap s)" and q: "proto (heap s ! x) = Some q"
      and n: "nth_proto (heap s) j q = Some y"
      by (auto split: if_splits option.splits)
    have "rank y \<le> rank q" using n by (rule Suc.IH)
    moreover have "rank q < rank x" using r x q by auto
    ultimately show ?case by simp
  qed
  {
    assume k: "nth_proto (heap s) k p = Some ob"
    have "proto (heap s ! ob) \<noteq> Some p"
    proof
      assume "proto (heap s ! ob) = Some p"
      then have "rank p < rank ob" using r ob by auto
      moreover have "rank ob \<le> rank p" using k by (rule le)
      ultimately show False by simp
    qed
    moreover have "\<exists>k. nth_proto (heap s) k p = Some ob" using k ..
    ultimately show "Object_setPrototypeOf ob (Some p) s =
           Some (Throw (TypeError ''Cyclic __proto__ value'') s)"
      using ob by (simp add: Object_setPrototypeOf_def reach)
  }
  assume n: "Object_setPrototypeOf ob (Some p) s = Some (Normal w s')"
  show "wf_heap (heap s')"
  proof (cases "proto (heap s ! ob) = Some p")
    case True
    then show ?thesis using n wf ob by (simp add: Object_setPrototypeOf_def)
  next
    case False
    then have no: "\<not> (\<exists>k. nth_proto (heap s) k p = Some ob)"
      and s': "s' = s\<lparr>heap := (heap s)[ob := (heap s ! ob)\<lparr>proto := Some p\<rparr>]\<rparr>"
      using n ob by (auto simp: Object_setPrototypeOf_def reach split: if_splits bool.splits)
    have "wf_heap ((heap s)[ob := (heap s ! ob)\<lparr>proto := Some p\<rparr>])"
      using wf ob p no by (intro wf_heap_set_proto) auto
    then show ?thesis by (simp add: s')
  qed
qed


lemma wf_heap_initial: "wf_heap (heap initial_state)"
  unfolding wf_heap_def
proof (intro exI allI impI)
  fix a p
  assume "a < length (heap initial_state)" and "proto (heap initial_state ! a) = Some p"
  then show "p < length (heap initial_state) \<and>
    (\<lambda>x. if x = 1 then 0 else (1::nat)) p < (\<lambda>x. if x = 1 then 0 else (1::nat)) a"
    by (auto simp: initial_state_def Object_prototype_def nth_Cons' less_Suc_eq
        split: if_splits)
qed

lemma wf_heap_append:
  assumes wf: "wf_heap h" and v: "\<forall>q. proto ob = Some q \<longrightarrow> q < length h"
  shows "wf_heap (h @ [ob])"
proof -
  from wf obtain rank :: "addr \<Rightarrow> nat" where
    r: "\<forall>a < length h. \<forall>p. proto (h ! a) = Some p \<longrightarrow> p < length h \<and> rank p < rank a"
    by (auto simp: wf_heap_def)
  define rank' where
    "rank' x = (if x = length h
                then Suc (case proto ob of None \<Rightarrow> 0 | Some q \<Rightarrow> rank q) else rank x)" for x
  have "\<forall>a < length (h @ [ob]). \<forall>p. proto ((h @ [ob]) ! a) = Some p \<longrightarrow>
          p < length (h @ [ob]) \<and> rank' p < rank' a"
  proof (intro allI impI)
    fix a p
    assume a: "a < length (h @ [ob])" and e: "proto ((h @ [ob]) ! a) = Some p"
    show "p < length (h @ [ob]) \<and> rank' p < rank' a"
    proof (cases "a = length h")
      case True
      then have "proto ob = Some p" using e by simp
      then show ?thesis using v True by (auto simp: rank'_def)
    next
      case False
      then have al: "a < length h" using a by simp
      then have "proto (h ! a) = Some p" using e by (simp add: nth_append)
      then have "p < length h" "rank p < rank a" using r al by auto
      then show ?thesis using al by (simp add: rank'_def)
    qed
  qed
  then show ?thesis unfolding wf_heap_def by blast
qed

lemma wf_heap_same_protos:
  assumes "wf_heap h" and "length h' = length h"
    and "\<forall>a < length h. proto (h' ! a) = proto (h ! a)"
  shows "wf_heap h'"
proof -
  from assms(1) obtain rank :: "addr \<Rightarrow> nat" where
    r: "\<forall>a < length h. \<forall>p. proto (h ! a) = Some p \<longrightarrow> p < length h \<and> rank p < rank a"
    by (auto simp: wf_heap_def)
  have "\<forall>a < length h'. \<forall>p. proto (h' ! a) = Some p \<longrightarrow> p < length h' \<and> rank p < rank a"
    using r assms(2,3) by simp
  then show ?thesis unfolding wf_heap_def by blast
qed

lemma wf_heap_alloc:
  assumes "wf_heap (heap s)" and "\<forall>q. proto ob = Some q \<longrightarrow> q < length (heap s)"
  shows "wf_heap (heap (snd (alloc ob s)))"
  using wf_heap_append [OF assms] by (simp add: alloc_def)

lemma wf_heap_invoke:
  assumes "wf_heap (heap s)" and "invoke e n args s = Some c"
  shows "wf_heap (heap (state_of c))"
proof (rule wf_heap_same_protos [OF assms(1)])
  show "length (heap (state_of c)) = length (heap s)"
    by (rule invoke_frame(1) [OF assms(2)])
  show "\<forall>a < length (heap s). proto (heap (state_of c) ! a) = proto (heap s ! a)"
    using invoke_frame(2) [OF assms(2)] by (simp add: proto_of_def)
qed

lemma sol2_literals_state_eq:
  "sol2_literals_state =
     \<lparr>heap = [\<lparr>props = Map.empty, proto = Some 1\<rparr>,
              \<lparr>props = [''hasOwnProperty'' \<mapsto> VFun Fn_hasOwnProperty], proto = None\<rparr>,
              \<lparr>props = [''sayName'' \<mapsto> VFun Fn_sayName, ''increment'' \<mapsto> VFun Fn_increment_this],
                proto = Some 1\<rparr>,
              \<lparr>props = [''name'' \<mapsto> VStr ''Phil'', ''score'' \<mapsto> VNum 5], proto = Some 2\<rparr>,
              \<lparr>props = [''increaseBalance'' \<mapsto> VFun Fn_increaseBalance], proto = Some 1\<rparr>],
      console = []\<rparr>"
  by (simp add: sol2_literals_state_def userFunctions_literal_def
      userCreator_sol2_def paidUserFunctions_literal_def object_literal_def Object_create_def
      alloc_def initial_state_def set_own_def Object_prototype_def)

lemma wf_heap_sol2_literals_state: "wf_heap (heap sol2_literals_state)"
  unfolding wf_heap_def
proof (intro exI allI impI)
  fix a p
  assume "a < length (heap sol2_literals_state)"
    and "proto (heap sol2_literals_state ! a) = Some p"
  then show "p < length (heap sol2_literals_state) \<and>
    (\<lambda>x. if x = 1 then 0 else if x = 2 then 1 else (2::nat)) p
    < (\<lambda>x. if x = 1 then 0 else if x = 2 then 1 else (2::nat)) a"
    by (auto simp: sol2_literals_state_eq nth_Cons' less_Suc_eq eval_nat_numeral
        split: if_splits)
qed


text \<open>
  Claim C6. A behaviour set is linked to its parent with \<^verbatim>\<open>Object.setPrototypeOf\<close>
  (line 408). On a well-formed heap the call always returns. When the object \<open>ob\<close> to be
  linked is itself on the chain of the proposed parent \<open>p\<close> (at level 0 when \<open>p\<close> is \<open>ob\<close>),
  the call throws the TypeError that JavaScript gives a cyclic extension and changes
  nothing; when it completes, the heap is well formed again. The initial heap is well
  formed, and \<^verbatim>\<open>Object.create\<close>, object literals and method calls keep it so. On a
  well-formed heap every property lookup returns.
\<close>

theorem cyclic_extension_rejected:
  "(wf_heap (heap s) \<and> ob < length (heap s) \<and> p < length (heap s) \<longrightarrow>
      (\<exists>c. Object_setPrototypeOf ob (Some p) s = Some c)
      \<and> (nth_proto (heap s) k p = Some ob \<longrightarrow>
           Object_setPrototypeOf ob (Some p) s =
             Some (Throw (TypeError ''Cyclic __proto__ value'') s))
      \<and> (Object_setPrototypeOf ob (Some p) s = Some (Normal w s') \<longrightarrow> wf_heap (heap s')))
   \<and> wf_heap (heap initial_state)
   \<and> (wf_heap (heap s) \<and> (\<forall>q. pr = Some q \<longrightarrow> q < length (heap s)) \<longrightarrow>
        wf_heap (heap (snd (Object_create pr s))))
   \<and> (wf_heap (heap s) \<and> Object_prototype < length (heap s) \<longrightarrow>
        wf_heap (heap (snd (object_literal kvs s))))
   \<and> (wf_heap (heap s) \<and> invoke e n args s = Some c \<longrightarrow> wf_heap (heap (state_of c)))
   \<and> (wf_heap (heap s) \<and> a < length (heap s) \<longrightarrow> (\<exists>v. get_prop (heap s) a n = Some v))"
proof (intro conjI impI)
  assume "wf_heap (heap s) \<and> ob < length (heap s) \<and> p < length (heap s)"
  then have h: "wf_heap (heap s)" "ob < length (heap s)" "p < length (heap s)" by simp_all
  show "\<exists>c. Object_setPrototypeOf ob (Some p) s = Some c"
    by (rule Object_setPrototypeOf_wf(1) [OF h])
  show "nth_proto (heap s) k p = Some ob \<Longrightarrow>
        Object_setPrototypeOf ob (Some p) s =
          Some (Throw (TypeError ''Cyclic __proto__ value'') s)"
    by (rule Object_setPrototypeOf_wf(2) [OF h])
  show "Object_setPrototypeOf ob (Some p) s = Some (Normal w s') \<Longrightarrow> wf_heap (heap s')"
    by (rule Object_setPrototypeOf_wf(3) [OF h])
next
  show "wf_heap (heap initial_state)" by (rule wf_heap_initial)
next
  assume "wf_heap (heap s) \<and> (\<forall>q. pr = Some q \<longrightarrow> q < length (heap s))"
  then show "wf_heap (heap (snd (Object_create pr s)))"
    unfolding Object_create_def by (intro wf_heap_alloc) simp_all
next
  assume "wf_heap (heap s) \<and> Object_prototype < length (heap s)"
  then show "wf_heap (heap (snd (object_literal kvs s)))"
    unfolding object_literal_def by (intro wf_heap_alloc) simp_all
next
  assume "wf_heap (heap s) \<and> invoke e n args s = Some c"
  then show "wf_heap (heap (state_of c))" using wf_heap_invoke by blast
next
  assume "wf_heap (heap s) \<and> a < length (heap s)"
  then show "\<exists>v. get_prop (heap s) a n = Some v" using get_prop_total by blast
qed

lemma sol2_link:
  "Object_setPrototypeOf 4 (Some 2) sol2_literals_state = Some (Normal (VObj 4) sol2_sub_state)"
  by (simp add: sol2_literals_state_eq sol2_sub_state_eq Object_setPrototypeOf_def
      proto_chain_reaches.simps)

theorem cyclic_extension_rejected_witness:
  "wf_heap (heap sol2_literals_state)
   \<and> 4 < length (heap sol2_literals_state) \<and> 2 < length (heap sol2_literals_state)
   \<and> Object_setPrototypeOf 4 (Some 2) sol2_literals_state =
       Some (Normal (VObj 4) sol2_sub_state)
   \<and> wf_heap (heap sol2_sub_state)
   \<and> nth_proto (heap sol2_sub_state) 1 4 = Some 2
   \<and> Object_setPrototypeOf 2 (Some 4) sol2_sub_state =
       Some (Throw (TypeError ''Cyclic __proto__ value'') sol2_sub_state)
   \<and> nth_proto (heap sol2_sub_state) 0 2 = Some 2
   \<and> Object_setPrototypeOf 2 (Some 2) sol2_sub_state =
       Some (Throw (TypeError ''Cyclic __proto__ value'') sol2_sub_state)
   \<and> (\<exists>v. get_prop (heap sol2_sub_state) 4 ''increment'' = Some v)"
proof -
  have l: "4 < length (heap sol2_literals_state)" "2 < length (heap sol2_literals_state)"
    by (simp_all add: sol2_literals_state_eq)
  have w: "wf_heap (heap sol2_sub_state)"
    using cyclic_extension_rejected
      [where s = sol2_literals_state and ob = 4 and p = 2 and w = "VObj 4"
        and s' = sol2_sub_state]
      wf_heap_sol2_literals_state l sol2_link
    by simp
  have l': "4 < length (heap sol2_sub_state)" "2 < length (heap sol2_sub_state)"
    by (simp_all add: sol2_sub_state_eq)
  have n: "nth_proto (heap sol2_sub_state) 1 4 = Some 2"
    "nth_proto (heap sol2_sub_state) 0 2 = Some 2"
    by (simp_all add: sol2_sub_state_eq)
  show ?thesis
    using cyclic_extension_rejected
      [where s = sol2_sub_state and ob = 2 and p = 4 and k = 1 and a = 4
        and n = "''increment''"]
      cyclic_extension_rejected
      [where s = sol2_sub_state and ob = 2 and p = 2 and k = 0]
      wf_heap_sol2_literals_state l sol2_link w l' n
    by simp
qed

end
